theory Spec2Isabelle
  imports Complex_Main
begin

section \<open>Python errors\<close>

text \<open>
  Every exception the modelled code can raise is a value; a fallible function returns
  \<open>py_error + 'a\<close> with \<open>Inl\<close> for the raised exception.
\<close>

datatype py_error =
  IndexError | ZeroDivisionError | TypeError | RuntimeError | ValueError | AttributeError

section \<open>Window geometry: \<open>get_window_size\<close>\<close>

text \<open>
  \<open>get_window_size(x_size, window_size, shift_size=None)\<close> copies the two tuples into
  lists and walks \<open>range(len(x_size))\<close>. Reading \<open>window_size[i]\<close> and writing
  \<open>use_shift_size[i]\<close> raise IndexError when the tuple is shorter than \<open>x_size\<close>.
  The loop state is the pair \<open>(use_window_size, use_shift_size)\<close>; the second component is
  \<open>None\<close> exactly when \<open>shift_size is None\<close>.
\<close>

fun get_window_size_loop ::
  "int list \<Rightarrow> int list \<Rightarrow> nat list \<Rightarrow> int list \<times> int list option
     \<Rightarrow> py_error + (int list \<times> int list option)" where
  "get_window_size_loop x_size window_size [] st = Inr st"
| "get_window_size_loop x_size window_size (i # is) (use_window_size, use_shift_size) =
     (if length window_size \<le> i then Inl IndexError
      else if x_size ! i \<le> window_size ! i then
        (case use_shift_size of
           None \<Rightarrow> get_window_size_loop x_size window_size is
                     (use_window_size[i := x_size ! i], None)
         | Some s \<Rightarrow>
             if length s \<le> i then Inl IndexError
             else get_window_size_loop x_size window_size is
                     (use_window_size[i := x_size ! i], Some (s[i := 0])))
      else get_window_size_loop x_size window_size is (use_window_size, use_shift_size))"

definition get_window_size ::
  "int list \<Rightarrow> int list \<Rightarrow> int list option \<Rightarrow> py_error + (int list \<times> int list option)" where
  "get_window_size x_size window_size shift_size =
     get_window_size_loop x_size window_size [0..<length x_size] (window_size, shift_size)"

section \<open>Relative position index\<close>

text \<open>
  \<open>coords_flatten\<close> is \<open>torch.flatten(torch.stack(torch.meshgrid(coords_d, coords_h,
  coords_w)), 1)\<close>: column \<open>n\<close> holds the \<open>(d, h, w)\<close> coordinate of the \<open>n\<close>-th window
  position in row-major order (meshgrid uses \<open>ij\<close> indexing).
\<close>

definition coords_flatten :: "nat \<times> nat \<times> nat \<Rightarrow> (int \<times> int \<times> int) list" where
  "coords_flatten window_size =
     (case window_size of (Wd, Wh, Ww) \<Rightarrow>
        concat (map (\<lambda>d. concat (map (\<lambda>h. map (\<lambda>w. (int d, int h, int w)) [0..<Ww]) [0..<Wh]))
                  [0..<Wd]))"

text \<open>
  \<open>relative_coords[i, j, :]\<close> is the coordinate difference of positions \<open>i\<close> and \<open>j\<close>;
  each component is shifted by \<open>window_size[c] - 1\<close>, the first two are multiplied by
  their strides, and the three are summed. The entries are \<open>int64\<close> in the source; for
  any table that fits in memory they stay far inside that range, so they are modelled as
  unbounded integers.
\<close>

definition relative_position_index :: "nat \<times> nat \<times> nat \<Rightarrow> int list list" where
  "relative_position_index window_size =
     (case window_size of (Wd, Wh, Ww) \<Rightarrow>
        map (\<lambda>(di, hi, wi).
               map (\<lambda>(dj, hj, wj).
                      (di - dj + (int Wd - 1)) * ((2 * int Wh - 1) * (2 * int Ww - 1))
                    + (hi - hj + (int Wh - 1)) * (2 * int Ww - 1)
                    + (wi - wj + (int Ww - 1)))
                 (coords_flatten window_size))
          (coords_flatten window_size))"

text \<open>Number of rows of the learnable bias table allocated by the constructor.\<close>

definition bias_table_rows :: "nat \<times> nat \<times> nat \<Rightarrow> int" where
  "bias_table_rows window_size =
     (case window_size of (Wd, Wh, Ww) \<Rightarrow>
        (2 * int Wd - 1) * (2 * int Wh - 1) * (2 * int Ww - 1))"

section \<open>Tensors\<close>

text \<open>
  A contiguous tensor is its shape together with its elements in row-major order, which is
  how \<open>view\<close>, \<open>permute(...).contiguous()\<close> and \<open>gather\<close> on a flattened view see it.
\<close>

record 'a tensor =
  shape :: "nat list"
  data :: "'a list"

definition wf_tensor :: "'a tensor \<Rightarrow> bool" where
  "wf_tensor t = (length (data t) = prod_list (shape t))"

text \<open>Row-major flattening of a multi-index and its inverse.\<close>

fun ravel :: "nat list \<Rightarrow> nat list \<Rightarrow> nat" where
  "ravel (n # ns) (i # is) = i * prod_list ns + ravel ns is"
| "ravel _ _ = 0"

fun unravel :: "nat list \<Rightarrow> nat \<Rightarrow> nat list" where
  "unravel [] k = []"
| "unravel (n # ns) k = (k div prod_list ns) # unravel ns (k mod prod_list ns)"

fun valid_index :: "nat list \<Rightarrow> nat list \<Rightarrow> bool" where
  "valid_index [] [] = True"
| "valid_index (n # ns) (i # is) = (i < n \<and> valid_index ns is)"
| "valid_index _ _ = False"

definition elem_at :: "'a tensor \<Rightarrow> nat list \<Rightarrow> 'a" where
  "elem_at t idx = data t ! ravel (shape t) idx"

definition tabulate :: "nat list \<Rightarrow> (nat list \<Rightarrow> 'a) \<Rightarrow> 'a tensor" where
  "tabulate s f = \<lparr>shape = s, data = map (\<lambda>k. f (unravel s k)) [0..<prod_list s]\<rparr>"

text \<open>
  Shape inference of \<open>view\<close> and \<open>reshape\<close>: at most one entry may be \<open>-1\<close>; it is
  inferred from the element count, which fails when the remaining sizes multiply to \<open>0\<close>
  or do not divide the element count. Without \<open>-1\<close> the sizes must multiply to the
  element count.
\<close>

definition infer_size :: "int list \<Rightarrow> nat \<Rightarrow> py_error + nat list" where
  "infer_size tgt n =
     (if (\<exists>d \<in> set tgt. d < -1) \<or> 1 < length (filter (\<lambda>d. d = -1) tgt) then Inl RuntimeError
      else
        let newsize = prod_list (map nat (filter (\<lambda>d. d \<noteq> -1) tgt)) in
        if -1 \<in> set tgt then
          (if 0 < newsize \<and> n mod newsize = 0
           then Inr (map (\<lambda>d. if d = -1 then n div newsize else nat d) tgt)
           else Inl RuntimeError)
        else if n = newsize then Inr (map nat tgt)
        else Inl RuntimeError)"

definition view_t :: "'a tensor \<Rightarrow> int list \<Rightarrow> py_error + 'a tensor" where
  "view_t t tgt =
     (case infer_size tgt (prod_list (shape t)) of
        Inl e \<Rightarrow> Inl e
      | Inr s \<Rightarrow> Inr (t\<lparr>shape := s\<rparr>))"

text \<open>
  \<open>t.permute(perm).contiguous()\<close>: axis \<open>i\<close> of the result is axis \<open>perm[i]\<close> of \<open>t\<close>, so
  the element at a result index \<open>idx\<close> is the element of \<open>t\<close> whose \<open>perm[i]\<close>-th
  coordinate is \<open>idx[i]\<close>.
\<close>

fun index_of :: "nat list \<Rightarrow> nat \<Rightarrow> nat" where
  "index_of [] j = 0"
| "index_of (p # ps) j = (if p = j then 0 else Suc (index_of ps j))"

definition permute_index :: "nat list \<Rightarrow> nat list \<Rightarrow> nat list" where
  "permute_index perm idx = map (\<lambda>i. idx ! i) perm"

definition inverse_perm :: "nat list \<Rightarrow> nat list" where
  "inverse_perm perm = map (index_of perm) [0..<length perm]"

definition permute_t :: "nat list \<Rightarrow> 'a tensor \<Rightarrow> 'a tensor" where
  "permute_t perm t =
     tabulate (permute_index perm (shape t))
       (\<lambda>idx. elem_at t (permute_index (inverse_perm perm) idx))"

section \<open>Window partition and reverse\<close>

text \<open>
  \<open>window_partition\<close> unpacks \<open>x.shape\<close> into five names (ValueError otherwise), divides
  the spatial extents by the window sizes (ZeroDivisionError on a zero window), views the
  tensor with eight axes, permutes them and views the result as
  \<open>(-1, reduce(mul, window_size), C)\<close>.
\<close>

definition window_partition :: "'a tensor \<Rightarrow> nat \<times> nat \<times> nat \<Rightarrow> py_error + 'a tensor" where
  "window_partition x window_size =
     (case window_size of (w0, w1, w2) \<Rightarrow>
      (case shape x of
         [B, D, H, W, C] \<Rightarrow>
           if w0 = 0 \<or> w1 = 0 \<or> w2 = 0 then Inl ZeroDivisionError
           else
             (case view_t x [int B, int (D div w0), int w0, int (H div w1), int w1,
                              int (W div w2), int w2, int C] of
                Inl e \<Rightarrow> Inl e
              | Inr x' \<Rightarrow>
                  view_t (permute_t [0, 1, 3, 5, 2, 4, 6, 7] x')
                    [-1, int (w0 * w1 * w2), int C])
       | _ \<Rightarrow> Inl ValueError))"

definition window_reverse ::
  "'a tensor \<Rightarrow> nat \<times> nat \<times> nat \<Rightarrow> nat \<Rightarrow> nat \<Rightarrow> nat \<Rightarrow> nat \<Rightarrow> py_error + 'a tensor" where
  "window_reverse windows window_size B D H W =
     (case window_size of (w0, w1, w2) \<Rightarrow>
        if w0 = 0 \<or> w1 = 0 \<or> w2 = 0 then Inl ZeroDivisionError
        else
          (case view_t windows [int B, int (D div w0), int (H div w1), int (W div w2),
                                 int w0, int w1, int w2, -1] of
             Inl e \<Rightarrow> Inl e
           | Inr x \<Rightarrow>
               view_t (permute_t [0, 1, 4, 2, 5, 3, 6, 7] x)
                 [int B, int D, int H, int W, -1]))"

section \<open>Attention mask\<close>

text \<open>
  A Python slice \<open>slice(start, stop)\<close> with step \<open>1\<close> on an axis of length \<open>n\<close>: a
  negative bound counts from the end and every bound is clamped into \<open>[0, n]\<close>; a missing
  bound is the start or the end of the axis.
\<close>

type_synonym py_slice = "int option \<times> int option"

definition slice_bound :: "int option \<Rightarrow> nat \<Rightarrow> nat \<Rightarrow> nat" where
  "slice_bound b dflt n =
     (case b of
        None \<Rightarrow> dflt
      | Some v \<Rightarrow> if v < 0 then nat (max 0 (v + int n)) else min (nat v) n)"

definition in_slice :: "py_slice \<Rightarrow> nat \<Rightarrow> nat \<Rightarrow> bool" where
  "in_slice sl n i = (slice_bound (fst sl) 0 n \<le> i \<and> i < slice_bound (snd sl) n n)"

text \<open>
  The three slices of one axis in \<open>compute_mask\<close>:
  \<open>slice(-window), slice(-window, -shift), slice(-shift, None)\<close>.
\<close>

definition axis_slices :: "nat \<Rightarrow> nat \<Rightarrow> py_slice list" where
  "axis_slices window shift =
     [(None, Some (- int window)),
      (Some (- int window), Some (- int shift)),
      (Some (- int shift), None)]"

text \<open>\<open>img_mask[:, d, h, w, :] = cnt\<close> on a tensor of shape \<open>(1, D, H, W, 1)\<close>.\<close>

definition fill_region ::
  "'a tensor \<Rightarrow> py_slice \<times> py_slice \<times> py_slice \<Rightarrow> 'a \<Rightarrow> 'a tensor" where
  "fill_region t r v =
     (case r of (d, h, w) \<Rightarrow>
        tabulate (shape t)
          (\<lambda>idx. if in_slice d (shape t ! 1) (idx ! 1)
                    \<and> in_slice h (shape t ! 2) (idx ! 2)
                    \<and> in_slice w (shape t ! 3) (idx ! 3)
                  then v else elem_at t idx))"

text \<open>The three nested loops, in order, with the running counter \<open>cnt\<close>.\<close>

fun label_regions ::
  "int tensor \<Rightarrow> (py_slice \<times> py_slice \<times> py_slice) list \<Rightarrow> int \<Rightarrow> int tensor" where
  "label_regions img_mask [] cnt = img_mask"
| "label_regions img_mask (r # rs) cnt = label_regions (fill_region img_mask r cnt) rs (cnt + 1)"

definition mask_regions ::
  "nat \<times> nat \<times> nat \<Rightarrow> nat \<times> nat \<times> nat \<Rightarrow> (py_slice \<times> py_slice \<times> py_slice) list" where
  "mask_regions window_size shift_size =
     (case window_size of (w0, w1, w2) \<Rightarrow>
      (case shift_size of (s0, s1, s2) \<Rightarrow>
         concat (map (\<lambda>d. concat (map (\<lambda>h. map (\<lambda>w. (d, h, w)) (axis_slices w2 s2))
                                     (axis_slices w1 s1)))
                   (axis_slices w0 s0))))"

text \<open>\<open>squeeze(-1)\<close> drops the last axis when its size is \<open>1\<close>.\<close>

definition squeeze_last :: "'a tensor \<Rightarrow> 'a tensor" where
  "squeeze_last t =
     (if shape t \<noteq> [] \<and> last (shape t) = 1 then t\<lparr>shape := butlast (shape t)\<rparr> else t)"

text \<open>
  \<open>mask_windows.unsqueeze(1) - mask_windows.unsqueeze(2)\<close> for a 2D \<open>mask_windows\<close> of shape
  \<open>(nW, N)\<close>: the operands broadcast to \<open>(nW, N, N)\<close> and entry \<open>[w, i, j]\<close> is
  \<open>mask_windows[w, j] - mask_windows[w, i]\<close>.
\<close>

definition pairwise_difference :: "int tensor \<Rightarrow> py_error + int tensor" where
  "pairwise_difference mask_windows =
     (case shape mask_windows of
        [nW, N] \<Rightarrow>
          Inr (tabulate [nW, N, N]
                 (\<lambda>idx. elem_at mask_windows [idx ! 0, idx ! 2]
                       - elem_at mask_windows [idx ! 0, idx ! 1]))
      | _ \<Rightarrow> Inl RuntimeError)"

text \<open>
  \<open>attn_mask.masked_fill(attn_mask != 0, -100.0).masked_fill(attn_mask == 0, 0.0)\<close>; both
  conditions read the difference tensor. The entries are the float32 values of small
  integers (labels \<open>0..26\<close>, their differences, \<open>0\<close> and \<open>-100\<close>), which float32
  represents exactly; they are modelled as integers.
\<close>

definition masked_fill_mask :: "int tensor \<Rightarrow> int tensor" where
  "masked_fill_mask attn_mask =
     attn_mask\<lparr>data :=
       map (\<lambda>v. let filled = (if v \<noteq> 0 then - 100 else v) in if v = 0 then 0 else filled)
         (data attn_mask)\<rparr>"

text \<open>
  The first half of \<open>compute_mask\<close>: the labelled volume, partitioned into windows and
  squeezed to shape \<open>(nW, window_volume)\<close>; row \<open>w\<close> holds the region labels of the
  positions of window \<open>w\<close>.
\<close>

definition mask_windows ::
  "nat \<Rightarrow> nat \<Rightarrow> nat \<Rightarrow> nat \<times> nat \<times> nat \<Rightarrow> nat \<times> nat \<times> nat \<Rightarrow> py_error + int tensor" where
  "mask_windows D H W window_size shift_size =
     (let img_mask = tabulate [1, D, H, W, 1] (\<lambda>idx. 0);
          img_mask = label_regions img_mask (mask_regions window_size shift_size) 0
      in case window_partition img_mask window_size of
           Inl e \<Rightarrow> Inl e
         | Inr windows \<Rightarrow> Inr (squeeze_last windows))"

text \<open>
  The mask builder (the function under \<open>lru_cache\<close>). The device only selects where the
  tensors live; it is part of the key and does not enter the values.
\<close>

definition compute_mask ::
  "nat \<Rightarrow> nat \<Rightarrow> nat \<Rightarrow> nat \<times> nat \<times> nat \<Rightarrow> nat \<times> nat \<times> nat \<Rightarrow> 'dev \<Rightarrow> py_error + int tensor" where
  "compute_mask D H W window_size shift_size device =
     (case mask_windows D H W window_size shift_size of
        Inl e \<Rightarrow> Inl e
      | Inr windows \<Rightarrow>
          (case pairwise_difference windows of
             Inl e \<Rightarrow> Inl e
           | Inr attn_mask \<Rightarrow> Inr (masked_fill_mask attn_mask)))"

text \<open>\<open>mask.transpose(-1, -2)\<close> of a 3D tensor, made contiguous.\<close>

definition transpose_last_two :: "'a tensor \<Rightarrow> 'a tensor" where
  "transpose_last_two t = permute_t [0, 2, 1] t"

section \<open>The mask cache\<close>

text \<open>
  \<open>compute_mask\<close> is decorated with \<open>@lru_cache()\<close>, that is \<open>functools.lru_cache\<close> with
  its default \<open>maxsize=128\<close>. The cache is modelled by its entries, most recently used
  first, together with a probe that counts how often the decorated function itself ran.
  A hit returns the stored result and moves the entry to the front. A miss runs the
  function; if it raises, the exception propagates and nothing is stored; otherwise the
  result is stored at the front, and when the cache is full the least recently used entry
  (the last one) is dropped.
\<close>

record ('k, 'v) lru_cache =
  entries :: "('k \<times> 'v) list"
  builder_calls :: nat

definition maxsize :: nat where
  "maxsize = 128"

definition lru_empty :: "('k, 'v) lru_cache" where
  "lru_empty = \<lparr>entries = [], builder_calls = 0\<rparr>"

definition lru_call ::
  "('k \<Rightarrow> py_error + 'v) \<Rightarrow> ('k, 'v) lru_cache \<Rightarrow> 'k
     \<Rightarrow> (py_error + 'v) \<times> ('k, 'v) lru_cache" where
  "lru_call f c key =
     (case map_of (entries c) key of
        Some v \<Rightarrow>
          (Inr v, c\<lparr>entries := (key, v) # filter (\<lambda>e. fst e \<noteq> key) (entries c)\<rparr>)
      | None \<Rightarrow>
          (case f key of
             Inl e \<Rightarrow> (Inl e, c\<lparr>builder_calls := builder_calls c + 1\<rparr>)
           | Inr v \<Rightarrow>
               (Inr v,
                \<lparr>entries = (key, v) # (if maxsize \<le> length (entries c)
                                         then butlast (entries c) else entries c),
                 builder_calls = builder_calls c + 1\<rparr>)))"

text \<open>A sequence of calls, threading the cache; the state after the last call.\<close>

fun lru_run :: "('k \<Rightarrow> py_error + 'v) \<Rightarrow> ('k, 'v) lru_cache \<Rightarrow> 'k list \<Rightarrow> ('k, 'v) lru_cache" where
  "lru_run f c [] = c"
| "lru_run f c (k # ks) = lru_run f (snd (lru_call f c k)) ks"

text \<open>The key of the cache is the argument tuple of \<open>compute_mask\<close>.\<close>

type_synonym 'dev mask_key = "nat \<times> nat \<times> nat \<times> (nat \<times> nat \<times> nat) \<times> (nat \<times> nat \<times> nat) \<times> 'dev"

definition compute_mask_builder :: "'dev mask_key \<Rightarrow> py_error + int tensor" where
  "compute_mask_builder key =
     (case key of (D, H, W, window_size, shift_size, device) \<Rightarrow>
        compute_mask D H W window_size shift_size device)"

definition compute_mask_cached ::
  "('dev mask_key, int tensor) lru_cache \<Rightarrow> 'dev mask_key
     \<Rightarrow> (py_error + int tensor) \<times> ('dev mask_key, int tensor) lru_cache" where
  "compute_mask_cached c key = lru_call compute_mask_builder c key"

text \<open>
  Keys on which the builder does not raise: positive window sizes that divide the
  padded extents.
\<close>

definition valid_mask_key :: "'dev mask_key \<Rightarrow> bool" where
  "valid_mask_key key =
     (case key of (D, H, W, (w0, w1, w2), shift_size, device) \<Rightarrow>
        0 < w0 \<and> 0 < w1 \<and> 0 < w2 \<and> w0 dvd D \<and> w1 dvd H \<and> w2 dvd W)"

text \<open>The invariant of the cache after a run \<open>ks\<close> of successful calls: the keys are the
  \<open>maxsize\<close> most recently used distinct keys, most recent first, and every stored value
  is what the function returns on its key.\<close>

definition lru_inv :: "('k \<Rightarrow> py_error + 'v) \<Rightarrow> 'k list \<Rightarrow> ('k, 'v) lru_cache \<Rightarrow> bool" where
  "lru_inv f ks c =
     (map fst (entries c) = take maxsize (rev (remdups ks))
      \<and> (\<forall>(k, v) \<in> set (entries c). f k = Inr v))"


section \<open>Multi-modal transformer block: the attention stage\<close>

text \<open>
  The six attention modules of a \<open>SwinTransformerBlock3D\<close>, as the constructor creates
  them: one self-attention per stream and two cross-attention instances. A module maps
  window tokens (and an optional mask) to window tokens, or raises; \<open>cross_attn(x, y, mask)\<close>
  takes its query from \<open>x\<close> and its keys and values from \<open>y\<close>.
\<close>

record ('w, 'm) swin_block_attention =
  self_attn_t1 :: "'w \<Rightarrow> 'm option \<Rightarrow> py_error + 'w"
  self_attn_t1ce :: "'w \<Rightarrow> 'm option \<Rightarrow> py_error + 'w"
  self_attn_t2 :: "'w \<Rightarrow> 'm option \<Rightarrow> py_error + 'w"
  self_attn_flair :: "'w \<Rightarrow> 'm option \<Rightarrow> py_error + 'w"
  cross_attn_1 :: "'w \<Rightarrow> 'w \<Rightarrow> 'm option \<Rightarrow> py_error + 'w"
  cross_attn_2 :: "'w \<Rightarrow> 'w \<Rightarrow> 'm option \<Rightarrow> py_error + 'w"

text \<open>
  \<open>a + b\<close> of two module results: the left operand is evaluated first and the first
  exception propagates.
\<close>

definition add_results :: "py_error + ('w :: plus) \<Rightarrow> py_error + 'w \<Rightarrow> py_error + 'w" where
  "add_results a b =
     (case a of Inl e \<Rightarrow> Inl e
      | Inr x \<Rightarrow> (case b of Inl e \<Rightarrow> Inl e | Inr y \<Rightarrow> Inr (x + y)))"

text \<open>
  The \<open>W-MSA/SW-MSA\<close> statements of \<open>forward_part1\<close>: four conditional expressions
  \<open>self(x) if cross == False else self(x) + cross(x, partner)\<close>, evaluated in the order
  t1, t1ce, t2, flair.
\<close>

definition forward_part1_attention ::
  "('w :: plus, 'm) swin_block_attention \<Rightarrow> 'w \<Rightarrow> 'w \<Rightarrow> 'w \<Rightarrow> 'w \<Rightarrow> 'm option \<Rightarrow> bool
     \<Rightarrow> py_error + ('w \<times> 'w \<times> 'w \<times> 'w)" where
  "forward_part1_attention blk t1_windows t1ce_windows t2_windows flair_windows attn_mask cross =
     (case (if \<not> cross then self_attn_t1 blk t1_windows attn_mask
            else add_results (self_attn_t1 blk t1_windows attn_mask)
                   (cross_attn_1 blk t1_windows t1ce_windows attn_mask)) of
        Inl e \<Rightarrow> Inl e
      | Inr attn_windows_t1 \<Rightarrow>
     (case (if \<not> cross then self_attn_t1ce blk t1ce_windows attn_mask
            else add_results (self_attn_t1ce blk t1ce_windows attn_mask)
                   (cross_attn_1 blk t1ce_windows t1_windows attn_mask)) of
        Inl e \<Rightarrow> Inl e
      | Inr attn_windows_t1ce \<Rightarrow>
     (case (if \<not> cross then self_attn_t2 blk t2_windows attn_mask
            else add_results (self_attn_t2 blk t2_windows attn_mask)
                   (cross_attn_2 blk t2_windows flair_windows attn_mask)) of
        Inl e \<Rightarrow> Inl e
      | Inr attn_windows_t2 \<Rightarrow>
     (case (if \<not> cross then self_attn_flair blk flair_windows attn_mask
            else add_results (self_attn_flair blk flair_windows attn_mask)
                   (cross_attn_2 blk flair_windows t2_windows attn_mask)) of
        Inl e \<Rightarrow> Inl e
      | Inr attn_windows_flair \<Rightarrow>
          Inr (attn_windows_t1, attn_windows_t1ce, attn_windows_t2, attn_windows_flair)))))"

section \<open>Windowed self-attention: shapes\<close>

text \<open>
  Which exception \<open>SelfWindowAttention3D\<close> raises depends only on the shapes of the
  tensors involved, so the module is modelled on shapes. The constructor computes
  \<open>head_dim = dim // num_heads\<close> (ZeroDivisionError for zero heads) and, when no \<open>qk_scale\<close>
  is given, \<open>head_dim ** -0.5\<close> (ZeroDivisionError for a zero \<open>head_dim\<close>); it allocates the
  bias table with \<open>(2 Wd - 1)(2 Wh - 1)(2 Ww - 1)\<close> rows (RuntimeError for a negative size).
\<close>

record self_window_attention =
  attn_dim :: nat
  attn_window_size :: "nat \<times> nat \<times> nat"
  attn_num_heads :: nat

definition SelfWindowAttention3D_init ::
  "nat \<Rightarrow> nat \<times> nat \<times> nat \<Rightarrow> nat \<Rightarrow> bool \<Rightarrow> py_error + self_window_attention" where
  "SelfWindowAttention3D_init dim' window_size num_heads qk_scale_given =
     (if num_heads = 0 then Inl ZeroDivisionError
      else if \<not> qk_scale_given \<and> dim' div num_heads = 0 then Inl ZeroDivisionError
      else if bias_table_rows window_size < 0 then Inl RuntimeError
      else Inr \<lparr>attn_dim = dim', attn_window_size = window_size, attn_num_heads = num_heads\<rparr>)"

text \<open>\<open>nn.Linear(in_features, out_features)\<close> applied to a tensor of shape \<open>s\<close>.\<close>

definition linear_shape :: "nat \<Rightarrow> nat \<Rightarrow> nat list \<Rightarrow> py_error + nat list" where
  "linear_shape in_features out_features s =
     (if s \<noteq> [] \<and> last s = in_features then Inr (butlast s @ [out_features])
      else Inl RuntimeError)"

text \<open>Broadcasting of two shapes, aligned at the last axis.\<close>

fun broadcast_rev :: "nat list \<Rightarrow> nat list \<Rightarrow> py_error + nat list" where
  "broadcast_rev [] bs = Inr bs"
| "broadcast_rev as [] = Inr as"
| "broadcast_rev (a # as) (b # bs) =
     (if a = b \<or> b = 1 then
        (case broadcast_rev as bs of Inl e \<Rightarrow> Inl e | Inr r \<Rightarrow> Inr (a # r))
      else if a = 1 then
        (case broadcast_rev as bs of Inl e \<Rightarrow> Inl e | Inr r \<Rightarrow> Inr (b # r))
      else Inl RuntimeError)"

definition broadcast_shapes :: "nat list \<Rightarrow> nat list \<Rightarrow> py_error + nat list" where
  "broadcast_shapes a b =
     (case broadcast_rev (rev a) (rev b) of Inl e \<Rightarrow> Inl e | Inr r \<Rightarrow> Inr (rev r))"

text \<open>\<open>a @ b\<close> for two 4D tensors: the leading axes broadcast, the inner sizes must agree.\<close>

definition matmul_shape :: "nat list \<Rightarrow> nat list \<Rightarrow> py_error + nat list" where
  "matmul_shape a b =
     (case (a, b) of
        ([a0, a1, n, k], [b0, b1, k', m]) \<Rightarrow>
          if k = k' then
            (case broadcast_shapes [a0, a1] [b0, b1] of
               Inl e \<Rightarrow> Inl e
             | Inr batch \<Rightarrow> Inr (batch @ [n, m]))
          else Inl RuntimeError
      | _ \<Rightarrow> Inl RuntimeError)"

text \<open>
  \<open>self.qkv(x).reshape(B_, N, 3, self.num_heads, C // self.num_heads)\<close>: the projection
  has shape \<open>(B_, N, 3 * dim)\<close>, and the reshape raises unless the five sizes multiply to
  its element count.
\<close>

definition qkv_reshape :: "self_window_attention \<Rightarrow> nat \<Rightarrow> nat \<Rightarrow> nat \<Rightarrow> py_error + nat list" where
  "qkv_reshape m Bw N C =
     (case linear_shape (attn_dim m) (attn_dim m * 3) [Bw, N, C] of
        Inl e \<Rightarrow> Inl e
      | Inr s \<Rightarrow>
          if attn_num_heads m = 0 then Inl ZeroDivisionError
          else infer_size [int Bw, int N, 3, int (attn_num_heads m), int (C div attn_num_heads m)]
                 (prod_list s))"

text \<open>
  The bias lookup
  \<open>table[index[:N, :N].reshape(-1)].reshape(N, N, -1).permute(2, 0, 1)\<close>: the index is
  square of side \<open>Wd * Wh * Ww\<close>, the gathered rows have shape \<open>(m * m, num_heads)\<close> with
  \<open>m = min(N, Wd * Wh * Ww)\<close>.
\<close>

definition relative_position_bias_shape :: "self_window_attention \<Rightarrow> nat \<Rightarrow> py_error + nat list" where
  "relative_position_bias_shape m N =
     (case attn_window_size m of (Wd, Wh, Ww) \<Rightarrow>
        let side = min N (Wd * Wh * Ww) in
        (case infer_size [int N, int N, -1] (side * side * attn_num_heads m) of
           Inl e \<Rightarrow> Inl e
         | Inr s \<Rightarrow> Inr (permute_index [2, 0, 1] s)))"

text \<open>
  The masked branch of \<open>forward\<close>: with a mask of shape \<open>(nW, n1, n2)\<close> the logits are
  viewed as \<open>(B_ // nW, nW, heads, N, N)\<close>, added to the mask broadcast as
  \<open>(1, nW, 1, n1, n2)\<close> and viewed back as \<open>(-1, heads, N, N)\<close>.
\<close>

definition add_mask_shape ::
  "self_window_attention \<Rightarrow> nat \<Rightarrow> nat \<Rightarrow> nat list \<Rightarrow> nat list option \<Rightarrow> py_error + nat list" where
  "add_mask_shape m Bw N attn mask_shape =
     (case mask_shape of
        None \<Rightarrow> Inr attn
      | Some [] \<Rightarrow> Inl IndexError
      | Some (nW # rest) \<Rightarrow>
          if nW = 0 then Inl ZeroDivisionError
          else
            (case infer_size [int (Bw div nW), int nW, int (attn_num_heads m), int N, int N]
                    (prod_list attn) of
               Inl e \<Rightarrow> Inl e
             | Inr a5 \<Rightarrow>
                 (case broadcast_shapes a5 (1 # nW # 1 # rest) of
                    Inl e \<Rightarrow> Inl e
                  | Inr a5' \<Rightarrow>
                      infer_size [-1, int (attn_num_heads m), int N, int N] (prod_list a5'))))"

text \<open>
  \<open>forward(x, mask)\<close> on shapes: the fused projection and its reshape, the split into
  \<open>q, k, v\<close> of shape \<open>(B_, heads, N, head_dim)\<close>, the logits \<open>q @ k.transpose(-2, -1)\<close>, the
  bias, the optional mask, \<open>(attn @ v).transpose(1, 2).reshape(B_, N, C)\<close> and the output
  projection. Scaling, softmax and dropout keep shapes.
\<close>

definition SelfWindowAttention3D_forward ::
  "self_window_attention \<Rightarrow> nat list \<Rightarrow> nat list option \<Rightarrow> py_error + nat list" where
  "SelfWindowAttention3D_forward m x mask_shape =
     (case x of
        [Bw, N, C] \<Rightarrow>
          (case qkv_reshape m Bw N C of
             Inl e \<Rightarrow> Inl e
           | Inr qkv \<Rightarrow>
               let qkv' = permute_index [2, 0, 3, 1, 4] qkv;
                   q = tl qkv'; k = tl qkv'; v = tl qkv'
               in
               (case matmul_shape q (permute_index [0, 1, 3, 2] k) of
                  Inl e \<Rightarrow> Inl e
                | Inr attn \<Rightarrow>
                    (case relative_position_bias_shape m N of
                       Inl e \<Rightarrow> Inl e
                     | Inr bias \<Rightarrow>
                         (case broadcast_shapes attn (1 # bias) of
                            Inl e \<Rightarrow> Inl e
                          | Inr attn' \<Rightarrow>
                              (case add_mask_shape m Bw N attn' mask_shape of
                                 Inl e \<Rightarrow> Inl e
                               | Inr attn'' \<Rightarrow>
                                   (case matmul_shape attn'' v of
                                      Inl e \<Rightarrow> Inl e
                                    | Inr av \<Rightarrow>
                                        (case infer_size [int Bw, int N, int C]
                                                (prod_list (permute_index [0, 2, 1, 3] av)) of
                                           Inl e \<Rightarrow> Inl e
                                         | Inr y \<Rightarrow> linear_shape (attn_dim m) (attn_dim m) y)))))))
      | _ \<Rightarrow> Inl ValueError)"

section \<open>Attention-gated deformable convolution: sampling\<close>



text \<open>
  One coordinate of a corner tensor: \<open>q_sss\<close> is \<open>floor(p)\<close>, \<open>q_lll\<close> is \<open>floor(p) + 1\<close>, each
  clamped into \<open>[0, x.size(axis) - 1]\<close> and converted to \<open>long\<close>.
\<close>

datatype side = Small | Large


















text \<open>
  The module: its configuration and its four learned layers. The layers are parameters
  of the model; each maps a tensor to a tensor or raises.
\<close>

datatype conv_mode = Deformable | Regular

record att_deform_conv =
  kernel_size :: nat
  stride :: nat
  padding :: nat
  mode :: conv_mode
  conv_se :: "real tensor \<Rightarrow> py_error + real tensor"
  offset_conv_kernel :: "real tensor \<Rightarrow> py_error + real tensor"
  att :: "real tensor \<Rightarrow> py_error + real tensor"
  conv_kernel :: "real tensor \<Rightarrow> py_error + real tensor"

text \<open>\<open>deformable_mode(on)\<close> switches between the two modes.\<close>

definition deformable_mode :: "bool \<Rightarrow> att_deform_conv \<Rightarrow> att_deform_conv" where
  "deformable_mode on m = m\<lparr>mode := (if on then Deformable else Regular)\<rparr>"







section \<open>A stage: \<open>BasicLayer.forward\<close>\<close>

text \<open>
  Python binds the arguments of a call to the parameters of the callee: positional
  arguments fill the parameters from the left, keyword arguments fill the rest by name,
  and the call raises TypeError when there are too many positional arguments, an unknown
  or doubly given keyword, or a parameter without a value.
\<close>

definition bind_parameters :: "string list \<Rightarrow> 'v list \<Rightarrow> (string \<times> 'v) list \<Rightarrow> py_error + 'v list" where
  "bind_parameters params args kwargs =
     (if length params < length args then Inl TypeError
      else if \<exists>name \<in> fst ` set kwargs. name \<notin> set params then Inl TypeError
      else if \<exists>name \<in> fst ` set kwargs. name \<in> set (take (length args) params) then Inl TypeError
      else if \<exists>name \<in> set (drop (length args) params). map_of kwargs name = None then Inl TypeError
      else Inr (args @ map (\<lambda>name. the (map_of kwargs name)) (drop (length args) params)))"

text \<open>
  The values passed to a block: a stream tensor, the attention mask, or the \<open>cross\<close> flag.
\<close>

datatype 'a py_value = TensorValue "'a tensor" | MaskValue "int tensor" | BoolValue bool

text \<open>
  A \<open>SwinTransformerBlock3D\<close> as the stage sees it: calling the module calls
  \<open>forward(self, t1, t1ce, t2, flair, mask_matrix, cross)\<close>, which returns four streams.
  What \<open>forward\<close> computes from well-bound arguments is a parameter.
\<close>

record 'a swin_block =
  block_forward ::
    "'a tensor \<Rightarrow> 'a tensor \<Rightarrow> 'a tensor \<Rightarrow> 'a tensor \<Rightarrow> int tensor \<Rightarrow> bool
       \<Rightarrow> py_error + ('a tensor \<times> 'a tensor \<times> 'a tensor \<times> 'a tensor)"

definition SwinTransformerBlock3D_call ::
  "'a swin_block \<Rightarrow> 'a py_value list \<Rightarrow> (string \<times> 'a py_value) list
     \<Rightarrow> py_error + ('a tensor \<times> 'a tensor \<times> 'a tensor \<times> 'a tensor)" where
  "SwinTransformerBlock3D_call blk args kwargs =
     (case bind_parameters [''t1'', ''t1ce'', ''t2'', ''flair'', ''mask_matrix'', ''cross'']
             args kwargs of
        Inl e \<Rightarrow> Inl e
      | Inr [TensorValue t1, TensorValue t1ce, TensorValue t2, TensorValue flair,
             MaskValue mask_matrix, BoolValue cross] \<Rightarrow>
          block_forward blk t1 t1ce t2 flair mask_matrix cross
      | Inr _ \<Rightarrow> Inl TypeError)"

text \<open>
  \<open>torch.cat((a, b), dim=1)\<close>: the tensors must agree in rank and in every size except
  that of axis 1.
\<close>

definition cat_dim1 :: "'a tensor \<Rightarrow> 'a tensor \<Rightarrow> py_error + 'a tensor" where
  "cat_dim1 a b =
     (case (shape a, shape b) of
        (a0 # a1 # as, b0 # b1 # bs) \<Rightarrow>
          if a0 = b0 \<and> as = bs then
            Inr (tabulate (a0 # (a1 + b1) # as)
                   (\<lambda>idx. if idx ! 1 < a1 then elem_at a idx
                          else elem_at b (idx[1 := idx ! 1 - a1])))
          else Inl RuntimeError
      | _ \<Rightarrow> Inl IndexError)"

text \<open>\<open>rearrange(t, 'b c d h w -> b d h w c')\<close> and its inverse, on 5D tensors.\<close>

definition to_channel_last :: "'a tensor \<Rightarrow> py_error + 'a tensor" where
  "to_channel_last t =
     (if length (shape t) = 5 then Inr (permute_t [0, 2, 3, 4, 1] t) else Inl RuntimeError)"

definition to_channel_first :: "'a tensor \<Rightarrow> py_error + 'a tensor" where
  "to_channel_first t =
     (if length (shape t) = 5 then Inr (permute_t [0, 4, 1, 2, 3] t) else Inl RuntimeError)"

text \<open>
  \<open>extract_feature\<close> enters the stage as a list of tensors; the loop rebinds the name to
  the first value a block returns, a tensor, on which \<open>append\<close> raises AttributeError.
\<close>

datatype 'a features = FeatureList "'a tensor list" | FeatureTensor "'a tensor"

text \<open>
  The loop over the blocks of the stage. Each iteration concatenates the streams
  \<open>t1, t1ce, t2, flair\<close> of the stage (the loop never assigns them) and calls the block
  with three tensors, the mask and the keyword \<open>cross\<close>; the four results are bound to
  \<open>extract_feature, t1_t1ce, t1_t2, t1_flair\<close>.
\<close>

fun block_loop ::
  "'a swin_block list \<Rightarrow> nat \<Rightarrow> nat \<Rightarrow> 'a tensor \<Rightarrow> 'a tensor \<Rightarrow> 'a tensor \<Rightarrow> 'a tensor
     \<Rightarrow> int tensor \<Rightarrow> 'a features \<Rightarrow> py_error + 'a features" where
  "block_loop [] depth n t1 t1ce t2 flair attn_mask extract_feature = Inr extract_feature"
| "block_loop (blk # blks) depth n t1 t1ce t2 flair attn_mask extract_feature =
     (case cat_dim1 t1 t1ce of
        Inl e \<Rightarrow> Inl e
      | Inr t1_t1ce \<Rightarrow>
     (case cat_dim1 t1 t2 of
        Inl e \<Rightarrow> Inl e
      | Inr t1_t2 \<Rightarrow>
     (case cat_dim1 t1 flair of
        Inl e \<Rightarrow> Inl e
      | Inr t1_flair \<Rightarrow>
     (case SwinTransformerBlock3D_call blk
             [TensorValue t1_t1ce, TensorValue t1_t2, TensorValue t1_flair, MaskValue attn_mask]
             [(''cross'', BoolValue (int depth = int n - 1))] of
        Inl e \<Rightarrow> Inl e
      | Inr (extract_feature', t1_t1ce', t1_t2', t1_flair') \<Rightarrow>
          block_loop blks (depth + 1) n t1 t1ce t2 flair attn_mask
            (FeatureTensor extract_feature')))))"

text \<open>
  The stage: its configured window and shift sizes (\<open>shift_size = window_size // 2\<close> per
  axis), its blocks and its optional downsampling layer.
\<close>

record 'a basic_layer =
  layer_window_size :: "nat \<times> nat \<times> nat"
  layer_shift_size :: "nat \<times> nat \<times> nat"
  blocks :: "'a swin_block list"
  downsample :: "('a tensor \<Rightarrow> py_error + 'a tensor) option"

text \<open>\<open>int(np.ceil(D / w)) * w\<close>; the division raises for \<open>w = 0\<close>.\<close>

definition padded_extent :: "nat \<Rightarrow> nat \<Rightarrow> py_error + nat" where
  "padded_extent D w = (if w = 0 then Inl ZeroDivisionError else Inr (((D + w - 1) div w) * w))"

text \<open>
  The parts of \<open>forward\<close> before the loop: the effective window and shift sizes from
  \<open>get_window_size\<close>, and the padded extents that, with them and the device, form the key
  of the mask cache.
\<close>

definition stage_window_shift ::
  "'a basic_layer \<Rightarrow> nat \<Rightarrow> nat \<Rightarrow> nat
     \<Rightarrow> py_error + ((nat \<times> nat \<times> nat) \<times> (nat \<times> nat \<times> nat))" where
  "stage_window_shift layer D H W =
     (case layer_window_size layer of (w0, w1, w2) \<Rightarrow>
      (case layer_shift_size layer of (s0, s1, s2) \<Rightarrow>
      (case get_window_size [int D, int H, int W] [int w0, int w1, int w2]
              (Some [int s0, int s1, int s2]) of
         Inl e \<Rightarrow> Inl e
       | Inr ([u0, u1, u2], Some [v0, v1, v2]) \<Rightarrow>
           Inr ((nat u0, nat u1, nat u2), (nat v0, nat v1, nat v2))
       | Inr _ \<Rightarrow> Inl ValueError)))"

definition stage_mask_key ::
  "nat \<times> nat \<times> nat \<Rightarrow> nat \<times> nat \<times> nat \<Rightarrow> nat \<Rightarrow> nat \<Rightarrow> nat \<Rightarrow> 'dev
     \<Rightarrow> py_error + 'dev mask_key" where
  "stage_mask_key window_size shift_size D H W device =
     (case window_size of (u0, u1, u2) \<Rightarrow>
        (case padded_extent D u0 of
           Inl e \<Rightarrow> Inl e
         | Inr Dp \<Rightarrow>
        (case padded_extent H u1 of
           Inl e \<Rightarrow> Inl e
         | Inr Hp \<Rightarrow>
        (case padded_extent W u2 of
           Inl e \<Rightarrow> Inl e
         | Inr Wp \<Rightarrow> Inr (Dp, Hp, Wp, window_size, shift_size, device)))))"

text \<open>
  The part of \<open>forward\<close> after the loop: the fused feature of the stage is appended, the
  streams are reshaped, downsampled when the stage has a downsampling layer, and returned
  channel-first.
\<close>

definition cat_features :: "'a tensor list \<Rightarrow> py_error + 'a tensor" where
  "cat_features ts =
     (case ts of
        [a, b, c, d] \<Rightarrow>
          (case cat_dim1 a b of
             Inl e \<Rightarrow> Inl e
           | Inr ab \<Rightarrow>
               (case cat_dim1 ab c of
                  Inl e \<Rightarrow> Inl e
                | Inr abc \<Rightarrow> cat_dim1 abc d))
      | _ \<Rightarrow> Inl RuntimeError)"

definition finish_stream ::
  "'a basic_layer \<Rightarrow> nat \<Rightarrow> nat \<Rightarrow> nat \<Rightarrow> nat \<Rightarrow> 'a tensor \<Rightarrow> py_error + 'a tensor" where
  "finish_stream layer B D H W t =
     (case view_t t [int B, int D, int H, int W, -1] of
        Inl e \<Rightarrow> Inl e
      | Inr t' \<Rightarrow>
          (case (case downsample layer of None \<Rightarrow> Inr t' | Some f \<Rightarrow> f t') of
             Inl e \<Rightarrow> Inl e
           | Inr t'' \<Rightarrow> to_channel_first t''))"

fun map_results :: "('a \<Rightarrow> py_error + 'b) \<Rightarrow> 'a list \<Rightarrow> py_error + 'b list" where
  "map_results f [] = Inr []"
| "map_results f (x # xs) =
     (case f x of
        Inl e \<Rightarrow> Inl e
      | Inr y \<Rightarrow> (case map_results f xs of Inl e \<Rightarrow> Inl e | Inr ys \<Rightarrow> Inr (y # ys)))"

definition stage_output ::
  "'a basic_layer \<Rightarrow> nat \<Rightarrow> nat \<Rightarrow> nat \<Rightarrow> nat \<Rightarrow> 'a tensor list \<Rightarrow> 'a features
     \<Rightarrow> py_error + ('a features \<times> 'a tensor list)" where
  "stage_output layer B D H W streams extract_feature =
     (case extract_feature of
        FeatureTensor t \<Rightarrow> Inl AttributeError
      | FeatureList fs \<Rightarrow>
          (case map_results to_channel_first streams of
             Inl e \<Rightarrow> Inl e
           | Inr cf \<Rightarrow>
               (case cat_features cf of
                  Inl e \<Rightarrow> Inl e
                | Inr fused \<Rightarrow>
                    (case map_results (finish_stream layer B D H W) streams of
                       Inl e \<Rightarrow> Inl e
                     | Inr out \<Rightarrow> Inr (FeatureList (fs @ [fused]), out)))))"

text \<open>
  \<open>BasicLayer.forward(t1, t1ce, t2, flair, extract_feature)\<close>, threading the mask cache.
  The result is the exception raised or the pair of the feature list and the four output
  streams, together with the cache after the call.
\<close>

definition BasicLayer_forward ::
  "'a basic_layer \<Rightarrow> 'dev \<Rightarrow> ('dev mask_key, int tensor) lru_cache
     \<Rightarrow> 'a tensor \<Rightarrow> 'a tensor \<Rightarrow> 'a tensor \<Rightarrow> 'a tensor \<Rightarrow> 'a features
     \<Rightarrow> (py_error + ('a features \<times> 'a tensor list)) \<times> ('dev mask_key, int tensor) lru_cache" where
  "BasicLayer_forward layer device cache t1 t1ce t2 flair extract_feature =
     (case shape t1 of
        [B, C, D, H, W] \<Rightarrow>
          (case stage_window_shift layer D H W of
             Inl e \<Rightarrow> (Inl e, cache)
           | Inr (window_size, shift_size) \<Rightarrow>
               (case map_results to_channel_last [t1, t1ce, t2, flair] of
                  Inl e \<Rightarrow> (Inl e, cache)
                | Inr streams \<Rightarrow>
                    (case stage_mask_key window_size shift_size D H W device of
                       Inl e \<Rightarrow> (Inl e, cache)
                     | Inr key \<Rightarrow>
                         (case compute_mask_cached cache key of
                            (Inl e, cache') \<Rightarrow> (Inl e, cache')
                          | (Inr attn_mask, cache') \<Rightarrow>
                              (case block_loop (blocks layer) 0 (length (blocks layer))
                                      (streams ! 0) (streams ! 1) (streams ! 2) (streams ! 3)
                                      attn_mask extract_feature of
                                 Inl e \<Rightarrow> (Inl e, cache')
                               | Inr extract_feature' \<Rightarrow>
                                   (stage_output layer B D H W streams extract_feature',
                                    cache'))))))
      | _ \<Rightarrow> (Inl ValueError, cache))"

section \<open>Auxiliary facts about lists\<close>

lemma length3_cases: "length xs = 3 \<Longrightarrow> \<exists>a b c. xs = [a, b, c]"
  by (cases xs; simp; cases "tl xs"; simp; cases "tl (tl xs)"; auto)

lemma length_concat_map_const:
  "(\<And>a. a < n \<Longrightarrow> length (g a) = m) \<Longrightarrow> length (concat (map g [0..<n])) = n * m"
  by (induction n) simp_all

lemma nth_concat_map_const:
  assumes "\<And>a. a < n \<Longrightarrow> length (g a) = m" and "i < n * m"
  shows "concat (map g [0..<n]) ! i = g (i div m) ! (i mod m)"
  using assms
proof (induction n)
  case 0 then show ?case by simp
next
  case (Suc n)
  have len: "length (concat (map g [0..<n])) = n * m"
    using Suc.prems(1) by (intro length_concat_map_const) simp
  show ?case
  proof (cases "i < n * m")
    case True
    then show ?thesis using Suc.IH Suc.prems(1) by (simp add: nth_append len)
  next
    case False
    then have ge: "n * m \<le> i" by simp
    from Suc.prems have lt: "i < n * m + m" by simp
    have m0: "0 < m" using Suc.prems by (cases m) auto
    have d: "i div m = n" using ge lt m0
      by (metis add.commute div_nat_eqI mult.commute mult_Suc_right)
    have md: "i mod m = i - n * m" using d by (metis minus_mult_div_eq_mod mult.commute)
    show ?thesis using ge lt by (simp add: nth_append len d md)
  qed
qed

section \<open>Window-size collapse\<close>

text \<open>
  Claim C7. For 3-tuples \<open>x_size\<close>, \<open>window_size\<close> and \<open>shift_size\<close>, \<open>get_window_size\<close>
  returns without raising, and on every axis \<open>i\<close>: if \<open>x_size[i] \<le> window_size[i]\<close> the
  effective window is \<open>x_size[i]\<close> and the effective shift is \<open>0\<close>; otherwise both keep
  their configured values. In either case the effective window does not exceed the
  extent of the volume on that axis.
\<close>

theorem get_window_size_axes:
  assumes "length x_size = 3" "length window_size = 3" "length shift_size = 3"
  shows "\<exists>uw us. get_window_size x_size window_size (Some shift_size) = Inr (uw, Some us)
           \<and> length uw = 3 \<and> length us = 3
           \<and> (\<forall>i<3. (x_size ! i \<le> window_size ! i \<longrightarrow> uw ! i = x_size ! i \<and> us ! i = 0)
                  \<and> (\<not> x_size ! i \<le> window_size ! i \<longrightarrow>
                        uw ! i = window_size ! i \<and> us ! i = shift_size ! i)
                  \<and> uw ! i \<le> x_size ! i)"
proof -
  obtain x0 x1 x2 where x: "x_size = [x0, x1, x2]"
    using length3_cases[OF assms(1)] by blast
  obtain w0 w1 w2 where w: "window_size = [w0, w1, w2]"
    using length3_cases[OF assms(2)] by blast
  obtain s0 s1 s2 where s: "shift_size = [s0, s1, s2]"
    using length3_cases[OF assms(3)] by blast
  have up: "[0..<3] = [0, 1, 2]" by (simp add: upt_rec)
  show ?thesis
    unfolding x w s get_window_size_def
    by (simp add: up less_Suc_eq numeral_3_eq_3 all_conj_distrib)
qed

theorem get_window_size_axes_witness:
  "get_window_size [4, 10, 7] [7, 7, 7] (Some [3, 3, 3]) = Inr ([4, 7, 7], Some [0, 3, 0])
   \<and> (\<exists>uw us. get_window_size [4, 10, 7] [7, 7, 7] (Some [3, 3, 3]) = Inr (uw, Some us)
           \<and> length uw = 3 \<and> length us = 3
           \<and> (\<forall>i<3. uw ! i \<le> [4, 10, 7] ! i))"
proof -
  have c: "get_window_size [4, 10, 7] [7, 7, 7] (Some [3, 3, 3]) = Inr ([4, 7, 7], Some [0, 3, 0])"
    by code_simp
  have "\<exists>uw us. get_window_size [4, 10, 7] [7, 7, 7] (Some [3, 3, 3]) = Inr (uw, Some us)
           \<and> length uw = 3 \<and> length us = 3
           \<and> (\<forall>i<3. uw ! i \<le> [4, 10, 7] ! i)"
    using get_window_size_axes[of "[4, 10, 7]" "[7, 7, 7]" "[3, 3, 3]"] by auto
  with c show ?thesis by blast
qed

section \<open>Relative position index\<close>

lemma length_coords_flatten: "length (coords_flatten (Wd, Wh, Ww)) = Wd * Wh * Ww"
proof -
  have "\<And>d. length (concat (map (\<lambda>h. map (\<lambda>w. (int d, int h, int w)) [0..<Ww]) [0..<Wh])) = Wh * Ww"
    by (rule length_concat_map_const) simp
  then show ?thesis
    unfolding coords_flatten_def by (simp add: length_concat_map_const[where m = "Wh * Ww"])
qed

lemma nth_coords_flatten:
  assumes "i < Wd * Wh * Ww"
  shows "coords_flatten (Wd, Wh, Ww) ! i
           = (int (i div (Wh * Ww)), int ((i div Ww) mod Wh), int (i mod Ww))"
proof -
  let ?g = "\<lambda>d. concat (map (\<lambda>h. map (\<lambda>w. (int d, int h, int w)) [0..<Ww]) [0..<Wh])"
  have lg: "\<And>d. length (?g d) = Wh * Ww"
    by (rule length_concat_map_const) simp
  have i': "i < Wd * (Wh * Ww)" using assms by (simp add: mult.assoc)
  have "coords_flatten (Wd, Wh, Ww) ! i = ?g (i div (Wh * Ww)) ! (i mod (Wh * Ww))"
    unfolding coords_flatten_def using nth_concat_map_const[of Wd ?g "Wh * Ww" i] lg i' by simp
  moreover have pos: "0 < Wh * Ww" using i' by (cases "Wh * Ww") auto
  then have r: "i mod (Wh * Ww) < Wh * Ww" by simp
  have w0: "0 < Ww" using pos by simp
  have "?g (i div (Wh * Ww)) ! (i mod (Wh * Ww))
          = (int (i div (Wh * Ww)), int ((i mod (Wh * Ww)) div Ww), int ((i mod (Wh * Ww)) mod Ww))"
    using nth_concat_map_const[of Wh "\<lambda>h. map (\<lambda>w. (int (i div (Wh * Ww)), int h, int w)) [0..<Ww]" Ww "i mod (Wh * Ww)"] r w0
    by simp
  moreover have "(i mod (Wh * Ww)) div Ww = (i div Ww) mod Wh"
  proof -
    have "i mod (Ww * Wh) = Ww * (i div Ww mod Wh) + i mod Ww" by (rule mod_mult2_eq)
    then show ?thesis using w0 by (simp add: mult.commute[of Wh Ww])
  qed
  moreover have "(i mod (Wh * Ww)) mod Ww = i mod Ww"
    by (simp add: mod_mod_cancel)
  ultimately show ?thesis by simp
qed

lemma mixed_radix_bound:
  fixes a b c A B C :: int
  assumes "0 \<le> a" "a < A" "0 \<le> b" "b < B" "0 \<le> c" "c < C"
  shows "0 \<le> a * (B * C) + b * C + c \<and> a * (B * C) + b * C + c < A * B * C"
proof -
  have B0: "0 < B" and C0: "0 < C" using assms by auto
  have lo: "0 \<le> a * (B * C) + b * C + c" using assms B0 C0 by simp
  have "b * C + c < B * C"
  proof -
    have "b * C + c < b * C + C" using assms by simp
    also have "\<dots> = (b + 1) * C" by (simp add: algebra_simps)
    also have "\<dots> \<le> B * C" using assms C0 by (intro mult_right_mono) auto
    finally show ?thesis .
  qed
  then have "a * (B * C) + b * C + c < a * (B * C) + B * C" by simp
  also have "\<dots> = (a + 1) * (B * C)" by (simp add: algebra_simps)
  also have "\<dots> \<le> A * (B * C)" using assms B0 C0 by (intro mult_right_mono) auto
  finally show ?thesis using lo by (simp add: mult.assoc)
qed

text \<open>
  Claim C8. For a window size \<open>(Wd, Wh, Ww)\<close> of positive integers the
  \<open>relative_position_index\<close> buffer is a square table with \<open>Wd * Wh * Ww\<close> rows and
  columns. Entry \<open>(i, j)\<close> is built from the coordinate differences of window positions
  \<open>i\<close> and \<open>j\<close>, each shifted by \<open>window - 1\<close> and mixed with the strides
  \<open>(2 Wh - 1)(2 Ww - 1)\<close> and \<open>(2 Ww - 1)\<close>, and it lies in
  \<open>[0, (2 Wd - 1)(2 Wh - 1)(2 Ww - 1))\<close>, the row range of the bias table.
\<close>

theorem relative_position_index_table:
  assumes "0 < Wd" "0 < Wh" "0 < Ww"
  shows "length (relative_position_index (Wd, Wh, Ww)) = Wd * Wh * Ww
       \<and> (\<forall>i < Wd * Wh * Ww.
            length (relative_position_index (Wd, Wh, Ww) ! i) = Wd * Wh * Ww
          \<and> (\<forall>j < Wd * Wh * Ww.
               relative_position_index (Wd, Wh, Ww) ! i ! j
                 = (int (i div (Wh * Ww)) - int (j div (Wh * Ww)) + (int Wd - 1))
                      * ((2 * int Wh - 1) * (2 * int Ww - 1))
                 + (int ((i div Ww) mod Wh) - int ((j div Ww) mod Wh) + (int Wh - 1))
                      * (2 * int Ww - 1)
                 + (int (i mod Ww) - int (j mod Ww) + (int Ww - 1))
             \<and> 0 \<le> relative_position_index (Wd, Wh, Ww) ! i ! j
             \<and> relative_position_index (Wd, Wh, Ww) ! i ! j < bias_table_rows (Wd, Wh, Ww)))"
proof (intro conjI allI impI)
  show "length (relative_position_index (Wd, Wh, Ww)) = Wd * Wh * Ww"
    by (simp add: relative_position_index_def length_coords_flatten)
next
  fix i assume i: "i < Wd * Wh * Ww"
  show "length (relative_position_index (Wd, Wh, Ww) ! i) = Wd * Wh * Ww"
    using i
    by (simp add: relative_position_index_def length_coords_flatten split: prod.splits)
next
  fix i j assume i: "i < Wd * Wh * Ww" and j: "j < Wd * Wh * Ww"
  let ?e = "relative_position_index (Wd, Wh, Ww) ! i ! j"
  let ?a = "int (i div (Wh * Ww)) - int (j div (Wh * Ww)) + (int Wd - 1)"
  let ?b = "int ((i div Ww) mod Wh) - int ((j div Ww) mod Wh) + (int Wh - 1)"
  let ?c = "int (i mod Ww) - int (j mod Ww) + (int Ww - 1)"
  show eq: "?e = ?a * ((2 * int Wh - 1) * (2 * int Ww - 1)) + ?b * (2 * int Ww - 1) + ?c"
    using i j
    by (simp add: relative_position_index_def length_coords_flatten nth_coords_flatten)
  have di: "i div (Wh * Ww) < Wd" using i
    by (simp add: less_mult_imp_div_less mult.assoc)
  have dj: "j div (Wh * Ww) < Wd" using j
    by (simp add: less_mult_imp_div_less mult.assoc)
  have hi: "(i div Ww) mod Wh < Wh" "(j div Ww) mod Wh < Wh" using assms by simp_all
  have wi: "i mod Ww < Ww" "j mod Ww < Ww" using assms by simp_all
  have a: "0 \<le> ?a" "?a < 2 * int Wd - 1" using di dj by linarith+
  have b: "0 \<le> ?b" "?b < 2 * int Wh - 1" using hi by linarith+
  have c: "0 \<le> ?c" "?c < 2 * int Ww - 1" using wi by linarith+
  from mixed_radix_bound[OF a(1) a(2) b(1) b(2) c(1) c(2)]
  show "0 \<le> ?e" and "?e < bias_table_rows (Wd, Wh, Ww)"
    unfolding eq bias_table_rows_def by simp_all
qed

theorem relative_position_index_table_witness:
  "relative_position_index (1, 1, 2) = [[1, 0], [2, 1]]
   \<and> bias_table_rows (1, 1, 2) = 3
   \<and> length (relative_position_index (1, 1, 2)) = 1 * 1 * 2
   \<and> 0 \<le> relative_position_index (1, 1, 2) ! 1 ! 0
   \<and> relative_position_index (1, 1, 2) ! 1 ! 0 < bias_table_rows (1, 1, 2)"
proof -
  have c: "relative_position_index (1, 1, 2) = [[1, 0], [2, 1]]" by code_simp
  have b: "bias_table_rows (1, 1, 2) = 3" by code_simp
  have p1: "0 < (1::nat)" and p2: "0 < (2::nat)" by simp_all
  have "length (relative_position_index (1, 1, 2)) = 1 * 1 * 2
   \<and> (\<forall>i < 1 * 1 * 2. \<forall>j < 1 * 1 * 2.
         0 \<le> relative_position_index (1, 1, 2) ! i ! j
       \<and> relative_position_index (1, 1, 2) ! i ! j < bias_table_rows (1, 1, 2))"
    using relative_position_index_table[OF p1 p1 p2] by blast
  then have "length (relative_position_index (1, 1, 2)) = 1 * 1 * 2
   \<and> 0 \<le> relative_position_index (1, 1, 2) ! 1 ! 0
   \<and> relative_position_index (1, 1, 2) ! 1 ! 0 < bias_table_rows (1, 1, 2)"
    by simp
  with c b show ?thesis by blast
qed

section \<open>Tensor indexing\<close>

lemma ravel_less: "valid_index s idx \<Longrightarrow> ravel s idx < prod_list s"
proof (induction s idx rule: valid_index.induct)
  case 1 then show ?case by simp
next
  case (2 n ns i "is")
  then have i: "i < n" and r: "ravel ns is < prod_list ns" by simp_all
  have "i * prod_list ns + ravel ns is < i * prod_list ns + prod_list ns" using r by simp
  also have "\<dots> = Suc i * prod_list ns" by simp
  also have "\<dots> \<le> n * prod_list ns" using i by (intro mult_le_mono1) simp
  finally show ?case by simp
qed simp_all

lemma unravel_ravel: "valid_index s idx \<Longrightarrow> unravel s (ravel s idx) = idx"
proof (induction s idx rule: valid_index.induct)
  case (2 n ns i "is")
  then have r: "ravel ns is < prod_list ns" by (simp add: ravel_less)
  then show ?case using 2 by simp
qed simp_all

lemma valid_unravel: "k < prod_list s \<Longrightarrow> valid_index s (unravel s k)"
proof (induction s arbitrary: k)
  case Nil then show ?case by simp
next
  case (Cons n ns)
  have pos: "0 < prod_list ns" using Cons.prems by (cases "prod_list ns") auto
  have "k div prod_list ns < n" using Cons.prems pos
    by (simp add: less_mult_imp_div_less mult.commute)
  moreover have "k mod prod_list ns < prod_list ns" using pos by simp
  ultimately show ?case using Cons.IH by simp
qed

lemma ravel_unravel: "k < prod_list s \<Longrightarrow> ravel s (unravel s k) = k"
proof (induction s arbitrary: k)
  case Nil then show ?case by simp
next
  case (Cons n ns)
  have pos: "0 < prod_list ns" using Cons.prems by (cases "prod_list ns") auto
  then have "ravel ns (unravel ns (k mod prod_list ns)) = k mod prod_list ns"
    using Cons.IH by simp
  then show ?case by simp
qed

lemma shape_tabulate [simp]: "shape (tabulate s f) = s"
  by (simp add: tabulate_def)

lemma wf_tabulate [simp]: "wf_tensor (tabulate s f)"
  by (simp add: tabulate_def wf_tensor_def)

lemma elem_at_tabulate: "valid_index s idx \<Longrightarrow> elem_at (tabulate s f) idx = f idx"
  by (simp add: elem_at_def tabulate_def ravel_less unravel_ravel)

lemma tabulate_cong:
  "(\<And>idx. valid_index s idx \<Longrightarrow> f idx = g idx) \<Longrightarrow> tabulate s f = tabulate s g"
  by (simp add: tabulate_def valid_unravel)

lemma tabulate_elem_at: "wf_tensor t \<Longrightarrow> tabulate (shape t) (elem_at t) = t"
proof -
  assume wf: "wf_tensor t"
  have "map (\<lambda>k. data t ! ravel (shape t) (unravel (shape t) k)) [0..<prod_list (shape t)] = data t"
    using wf unfolding wf_tensor_def
    by (intro nth_equalityI) (simp_all add: ravel_unravel)
  then show ?thesis by (simp add: tabulate_def elem_at_def)
qed


lemma valid_index_length: "valid_index s idx \<Longrightarrow> length idx = length s"
  by (induction s idx rule: valid_index.induct) simp_all

lemma length8_cases:
  "length xs = 8 \<Longrightarrow> \<exists>a b c d e f g h. xs = [a, b, c, d, e, f, g, h]"
proof -
  assume "length xs = 8"
  then have "length xs = Suc (Suc (Suc (Suc (Suc (Suc (Suc (Suc 0)))))))" by simp
  then show ?thesis by (auto simp: length_Suc_conv)
qed

lemma inverse_perm_partition: "inverse_perm [0, 1, 3, 5, 2, 4, 6, 7] = [0, 1, 4, 2, 5, 3, 6, 7]"
  by code_simp

lemma inverse_perm_reverse: "inverse_perm [0, 1, 4, 2, 5, 3, 6, 7] = [0, 1, 3, 5, 2, 4, 6, 7]"
  by code_simp

lemma permute_index_partition:
  "permute_index [0, 1, 3, 5, 2, 4, 6, 7] [a, b, c, d, e, f, g, h] = [a, b, d, f, c, e, g, h]"
  by (simp add: permute_index_def)

lemma permute_index_reverse:
  "permute_index [0, 1, 4, 2, 5, 3, 6, 7] [a, b, c, d, e, f, g, h] = [a, b, e, c, f, d, g, h]"
  by (simp add: permute_index_def)

lemma permute_partition_reverse:
  assumes wf: "wf_tensor t" and len: "length (shape t) = 8"
  shows "permute_t [0, 1, 4, 2, 5, 3, 6, 7] (permute_t [0, 1, 3, 5, 2, 4, 6, 7] t) = t"
proof -
  obtain a b c d e f g h where s: "shape t = [a, b, c, d, e, f, g, h]"
    using length8_cases[OF len] by blast
  have "permute_t [0, 1, 4, 2, 5, 3, 6, 7] (permute_t [0, 1, 3, 5, 2, 4, 6, 7] t)
          = tabulate (shape t)
              (\<lambda>idx. elem_at (tabulate [a, b, d, f, c, e, g, h]
                         (\<lambda>idx'. elem_at t (permute_index [0, 1, 4, 2, 5, 3, 6, 7] idx')))
                       (permute_index [0, 1, 3, 5, 2, 4, 6, 7] idx))"
    by (simp only: permute_t_def inverse_perm_partition inverse_perm_reverse s
          shape_tabulate permute_index_partition permute_index_reverse)
  also have "\<dots> = tabulate (shape t) (elem_at t)"
  proof (rule tabulate_cong)
    fix idx assume v: "valid_index (shape t) idx"
    then have "length idx = 8" using valid_index_length len by metis
    then obtain i0 i1 i2 i3 i4 i5 i6 i7 where i: "idx = [i0, i1, i2, i3, i4, i5, i6, i7]"
      using length8_cases by blast
    have v': "valid_index [a, b, d, f, c, e, g, h] [i0, i1, i3, i5, i2, i4, i6, i7]"
      using v unfolding s i by simp
    show "elem_at (tabulate [a, b, d, f, c, e, g, h]
                     (\<lambda>idx'. elem_at t (permute_index [0, 1, 4, 2, 5, 3, 6, 7] idx')))
                  (permute_index [0, 1, 3, 5, 2, 4, 6, 7] idx) = elem_at t idx"
      unfolding i permute_index_partition
      by (simp only: elem_at_tabulate[OF v'] permute_index_reverse)
  qed
  also have "\<dots> = t" by (rule tabulate_elem_at[OF wf])
  finally show ?thesis .
qed

lemma infer_size_plain:
  "infer_size (map int s) n = (if n = prod_list s then Inr s else Inl RuntimeError)"
proof -
  have f: "filter (\<lambda>d. d = -1) (map int s) = []" by (induction s) auto
  have g: "filter (\<lambda>d. d \<noteq> -1) (map int s) = map int s" by (induction s) auto
  have m: "- 1 \<notin> set (map int s)" by auto
  have e: "\<not> (\<exists>d\<in>set (map int s). d < - 1)" by auto
  show ?thesis
    unfolding infer_size_def Let_def f g using m e by (simp add: comp_def)
qed

lemma infer_size_last:
  "infer_size (map int s @ [-1]) n
     = (if 0 < prod_list s \<and> n mod prod_list s = 0 then Inr (s @ [n div prod_list s])
        else Inl RuntimeError)"
proof -
  have f: "filter (\<lambda>d. d = -1) (map int s) = []" by (induction s) auto
  have g: "filter (\<lambda>d. d \<noteq> -1) (map int s) = map int s" by (induction s) auto
  have e: "\<not> (\<exists>d\<in>set (map int s @ [-1]). d < - 1)" by auto
  have mp: "\<And>v. map (\<lambda>d. if d = - 1 then v else nat d) (map int s) = s"
    by (induction s) auto
  show ?thesis
    unfolding infer_size_def Let_def using e by (simp add: f g comp_def mp)
qed

lemma infer_size_first:
  "infer_size (-1 # map int s) n
     = (if 0 < prod_list s \<and> n mod prod_list s = 0 then Inr ((n div prod_list s) # s)
        else Inl RuntimeError)"
proof -
  have f: "filter (\<lambda>d. d = -1) (map int s) = []" by (induction s) auto
  have g: "filter (\<lambda>d. d \<noteq> -1) (map int s) = map int s" by (induction s) auto
  have e: "\<not> (\<exists>d\<in>set (-1 # map int s). d < - 1)" by auto
  have mp: "\<And>v. map (\<lambda>d. if d = - 1 then v else nat d) (map int s) = s"
    by (induction s) auto
  show ?thesis
    unfolding infer_size_def Let_def using e by (simp add: f g comp_def mp)
qed


section \<open>Window partition round trip\<close>

lemma view_t_plain:
  "tgt = map int s \<Longrightarrow> prod_list (shape t) = prod_list s \<Longrightarrow> view_t t tgt = Inr (t\<lparr>shape := s\<rparr>)"
  by (simp add: view_t_def infer_size_plain)

lemma view_t_last:
  "tgt = map int s @ [-1] \<Longrightarrow> 0 < prod_list s \<Longrightarrow> prod_list (shape t) = prod_list s * c
     \<Longrightarrow> view_t t tgt = Inr (t\<lparr>shape := s @ [c]\<rparr>)"
  by (simp add: view_t_def infer_size_last)

lemma view_t_first:
  "tgt = -1 # map int s \<Longrightarrow> 0 < prod_list s \<Longrightarrow> prod_list (shape t) = c * prod_list s
     \<Longrightarrow> view_t t tgt = Inr (t\<lparr>shape := c # s\<rparr>)"
  by (simp add: view_t_def infer_size_first)

lemma wf_tensor_reshape:
  "wf_tensor t \<Longrightarrow> prod_list s = prod_list (shape t) \<Longrightarrow> wf_tensor (t\<lparr>shape := s\<rparr>)"
  by (simp add: wf_tensor_def)

lemma window_partition_result:
  assumes sh: "shape x = [B, w0 * nD, w1 * nH, w2 * nW, C]"
    and pos: "0 < w0" "0 < w1" "0 < w2" and C: "0 < C"
  shows "window_partition x (w0, w1, w2)
           = Inr ((permute_t [0, 1, 3, 5, 2, 4, 6, 7] (x\<lparr>shape := [B, nD, w0, nH, w1, nW, w2, C]\<rparr>))
                    \<lparr>shape := [B * nD * nH * nW, w0 * w1 * w2, C]\<rparr>)"
proof -
  let ?s8 = "[B, nD, w0, nH, w1, nW, w2, C]"
  let ?x1 = "x\<lparr>shape := ?s8\<rparr>"
  let ?x2 = "permute_t [0, 1, 3, 5, 2, 4, 6, 7] ?x1"
  have v1: "view_t x [int B, int nD, int w0, int nH, int w1, int nW, int w2, int C] = Inr ?x1"
    using pos by (intro view_t_plain) (simp_all add: sh)
  have s2: "shape ?x2 = [B, nD, nH, nW, w0, w1, w2, C]"
    by (simp add: permute_t_def permute_index_def)
  have v2: "view_t ?x2 [-1, int (w0 * w1 * w2), int C]
              = Inr (?x2\<lparr>shape := [B * nD * nH * nW, w0 * w1 * w2, C]\<rparr>)"
    using pos C
    by (intro view_t_first[where s = "[w0 * w1 * w2, C]"]) (simp_all add: s2 del: One_nat_def)
  show ?thesis
    unfolding window_partition_def using pos by (simp add: sh v1 v2 del: One_nat_def of_nat_mult)
qed

lemma window_reverse_result:
  assumes wf: "wf_tensor x" and sh: "shape x = [B, w0 * nD, w1 * nH, w2 * nW, C]"
    and pos: "0 < w0" "0 < w1" "0 < w2" and ne: "0 < B" "0 < nD" "0 < nH" "0 < nW"
  shows "window_reverse
           ((permute_t [0, 1, 3, 5, 2, 4, 6, 7] (x\<lparr>shape := [B, nD, w0, nH, w1, nW, w2, C]\<rparr>))
                    \<lparr>shape := [B * nD * nH * nW, w0 * w1 * w2, C]\<rparr>)
           (w0, w1, w2) B (w0 * nD) (w1 * nH) (w2 * nW) = Inr x"
proof -
  let ?s8 = "[B, nD, w0, nH, w1, nW, w2, C]"
  let ?x1 = "x\<lparr>shape := ?s8\<rparr>"
  let ?x2 = "permute_t [0, 1, 3, 5, 2, 4, 6, 7] ?x1"
  let ?y = "?x2\<lparr>shape := [B * nD * nH * nW, w0 * w1 * w2, C]\<rparr>"
  have wf1: "wf_tensor ?x1" using wf by (simp add: wf_tensor_def sh)
  have s2: "shape ?x2 = [B, nD, nH, nW, w0, w1, w2, C]"
    by (simp add: permute_t_def permute_index_def)
  have y2: "?y\<lparr>shape := [B, nD, nH, nW, w0, w1, w2, C]\<rparr> = ?x2"
    using s2 by (cases ?x2) simp
  have v3: "view_t ?y [int B, int nD, int nH, int nW, int w0, int w1, int w2, -1] = Inr ?x2"
  proof -
    have "view_t ?y [int B, int nD, int nH, int nW, int w0, int w1, int w2, -1]
            = Inr (?y\<lparr>shape := [B, nD, nH, nW, w0, w1, w2] @ [C]\<rparr>)"
      using pos ne by (intro view_t_last) simp_all
    then show ?thesis using y2 by simp
  qed
  have p: "permute_t [0, 1, 4, 2, 5, 3, 6, 7] ?x2 = ?x1"
    by (rule permute_partition_reverse[OF wf1]) simp
  have x1: "?x1\<lparr>shape := [B, w0 * nD, w1 * nH, w2 * nW, C]\<rparr> = x"
    using sh by (cases x) simp
  have v4: "view_t ?x1 [int B, int (w0 * nD), int (w1 * nH), int (w2 * nW), -1] = Inr x"
  proof -
    have "view_t ?x1 [int B, int (w0 * nD), int (w1 * nH), int (w2 * nW), -1]
            = Inr (?x1\<lparr>shape := [B, w0 * nD, w1 * nH, w2 * nW] @ [C]\<rparr>)"
      using pos ne by (intro view_t_last) simp_all
    then show ?thesis using x1 by simp
  qed
  show ?thesis
    unfolding window_reverse_def using pos by (simp add: v3 p v4 del: One_nat_def of_nat_mult)
qed


text \<open>
  Claim C1 (amended). For every well-formed, non-empty tensor \<open>x\<close> of shape
  \<open>(B, D, H, W, C)\<close> and positive window sizes that divide \<open>D\<close>, \<open>H\<close> and \<open>W\<close>,
  \<open>window_partition\<close> returns a tensor of shape
  \<open>(B * (D/Wd) * (H/Wh) * (W/Ww), Wd * Wh * Ww, C)\<close> and \<open>window_reverse\<close> of it with the same
  window size and \<open>B, D, H, W\<close> returns \<open>x\<close> itself.
\<close>

theorem window_reverse_partition:
  assumes wf: "wf_tensor x" and sh: "shape x = [B, D, H, W, C]"
    and pos: "0 < w0" "0 < w1" "0 < w2"
    and dv: "w0 dvd D" "w1 dvd H" "w2 dvd W"
    and ne: "data x \<noteq> []"
  shows "\<exists>y. window_partition x (w0, w1, w2) = Inr y
            \<and> shape y = [B * (D div w0) * (H div w1) * (W div w2), w0 * w1 * w2, C]
            \<and> window_reverse y (w0, w1, w2) B D H W = Inr x"
proof -
  obtain nD nH nW where D: "D = w0 * nD" and H: "H = w1 * nH" and W: "W = w2 * nW"
    using dv by (auto elim!: dvdE)
  have "0 < prod_list (shape x)"
    using wf ne unfolding wf_tensor_def by (metis length_greater_0_conv)
  then have p: "0 < B" "0 < nD" "0 < nH" "0 < nW" "0 < C" by (simp_all add: sh D H W)
  have sh': "shape x = [B, w0 * nD, w1 * nH, w2 * nW, C]" by (simp add: sh D H W)
  let ?y = "(permute_t [0, 1, 3, 5, 2, 4, 6, 7] (x\<lparr>shape := [B, nD, w0, nH, w1, nW, w2, C]\<rparr>))
                    \<lparr>shape := [B * nD * nH * nW, w0 * w1 * w2, C]\<rparr>"
  have "window_partition x (w0, w1, w2) = Inr ?y"
    by (rule window_partition_result[OF sh' pos p(5)])
  moreover have "window_reverse ?y (w0, w1, w2) B D H W = Inr x"
    unfolding D H W by (rule window_reverse_result[OF wf sh' pos p(1-4)])
  moreover have "shape ?y = [B * (D div w0) * (H div w1) * (W div w2), w0 * w1 * w2, C]"
    using pos by (simp add: D H W)
  ultimately show ?thesis by blast
qed

theorem window_reverse_partition_witness:
  "window_partition \<lparr>shape = [1, 2, 2, 2, 1], data = [0, 1, 2, 3, 4, 5, 6, 7 :: nat]\<rparr> (1, 2, 1)
     = Inr \<lparr>shape = [4, 2, 1], data = [0, 2, 1, 3, 4, 6, 5, 7]\<rparr>
   \<and> window_reverse \<lparr>shape = [4, 2, 1], data = [0, 2, 1, 3, 4, 6, 5, 7 :: nat]\<rparr> (1, 2, 1) 1 2 2 2
     = Inr \<lparr>shape = [1, 2, 2, 2, 1], data = [0, 1, 2, 3, 4, 5, 6, 7]\<rparr>"
proof -
  let ?x = "\<lparr>shape = [1, 2, 2, 2, 1], data = [0, 1, 2, 3, 4, 5, 6, 7 :: nat]\<rparr>"
  have c: "window_partition ?x (1, 2, 1) = Inr \<lparr>shape = [4, 2, 1], data = [0, 2, 1, 3, 4, 6, 5, 7]\<rparr>"
    by code_simp
  have "\<exists>y. window_partition ?x (1, 2, 1) = Inr y
            \<and> shape y = [1 * (2 div 1) * (2 div 2) * (2 div 1), 1 * 2 * 1, 1]
            \<and> window_reverse y (1, 2, 1) 1 2 2 2 = Inr ?x"
    by (rule window_reverse_partition) (simp_all add: wf_tensor_def)
  with c show ?thesis by auto
qed

text \<open>
  On an empty tensor the round trip does not return the tensor: the \<open>view\<close> in
  \<open>window_reverse\<close> cannot infer its \<open>-1\<close> axis from zero elements and raises.
\<close>

theorem window_reverse_partition_empty:
  "wf_tensor \<lparr>shape = [0, 2, 2, 2, 1], data = [] :: nat list\<rparr>
   \<and> window_partition \<lparr>shape = [0, 2, 2, 2, 1], data = [] :: nat list\<rparr> (1, 2, 1)
       = Inr \<lparr>shape = [0, 2, 1], data = []\<rparr>
   \<and> window_reverse \<lparr>shape = [0, 2, 1], data = [] :: nat list\<rparr> (1, 2, 1) 0 2 2 2
       = Inl RuntimeError"
  by code_simp

section \<open>Attention mask\<close>

lemma shape_fill_region [simp]: "shape (fill_region t r v) = shape t"
  by (cases r) (simp add: fill_region_def)

lemma shape_label_regions [simp]: "shape (label_regions t rs cnt) = shape t"
  by (induction t rs cnt rule: label_regions.induct) simp_all

lemma masked_fill_tabulate:
  "masked_fill_mask (tabulate s f)
     = tabulate s (\<lambda>idx. if f idx = 0 then 0 else - 100)"
  by (simp add: masked_fill_mask_def tabulate_def Let_def)

lemma data_tabulate_values:
  "(\<And>idx. P (f idx)) \<Longrightarrow> \<forall>v \<in> set (data (tabulate s f)). P v"
  by (auto simp: tabulate_def)

lemma compute_mask_result:
  assumes pos: "0 < w0" "0 < w1" "0 < w2"
  shows "\<exists>mw :: int tensor. shape mw = [nD * nH * nW, w0 * w1 * w2]
        \<and> mask_windows (w0 * nD) (w1 * nH) (w2 * nW) (w0, w1, w2) shift_size = Inr mw
        \<and> compute_mask (w0 * nD) (w1 * nH) (w2 * nW) (w0, w1, w2) shift_size device
          = Inr (tabulate [nD * nH * nW, w0 * w1 * w2, w0 * w1 * w2]
                   (\<lambda>idx. if elem_at mw [idx ! 0, idx ! 2] - elem_at mw [idx ! 0, idx ! 1] = 0
                           then 0 else - 100))"
proof -
  let ?img = "label_regions (tabulate [1, w0 * nD, w1 * nH, w2 * nW, 1] (\<lambda>idx. 0))
                (mask_regions (w0, w1, w2) shift_size) 0"
  let ?y = "(permute_t [0, 1, 3, 5, 2, 4, 6, 7] (?img\<lparr>shape := [1, nD, w0, nH, w1, nW, w2, 1]\<rparr>))
              \<lparr>shape := [1 * nD * nH * nW, w0 * w1 * w2, 1]\<rparr>"
  let ?mw = "?y\<lparr>shape := [nD * nH * nW, w0 * w1 * w2]\<rparr>"
  have sh: "shape ?img = [1, w0 * nD, w1 * nH, w2 * nW, 1]" by simp
  have wp: "window_partition ?img (w0, w1, w2) = Inr ?y"
    by (rule window_partition_result[OF sh pos]) simp
  have sq: "squeeze_last ?y = ?mw" by (simp add: squeeze_last_def)
  have mws: "mask_windows (w0 * nD) (w1 * nH) (w2 * nW) (w0, w1, w2) shift_size = Inr ?mw"
    by (simp only: mask_windows_def Let_def wp sq sum.case)
  have pd: "pairwise_difference ?mw
              = Inr (tabulate [nD * nH * nW, w0 * w1 * w2, w0 * w1 * w2]
                       (\<lambda>idx. elem_at ?mw [idx ! 0, idx ! 2] - elem_at ?mw [idx ! 0, idx ! 1]))"
    by (simp add: pairwise_difference_def)
  have "compute_mask (w0 * nD) (w1 * nH) (w2 * nW) (w0, w1, w2) shift_size device
          = Inr (tabulate [nD * nH * nW, w0 * w1 * w2, w0 * w1 * w2]
                   (\<lambda>idx. if elem_at ?mw [idx ! 0, idx ! 2] - elem_at ?mw [idx ! 0, idx ! 1] = 0
                           then 0 else - 100))"
    by (simp only: compute_mask_def mws pd sum.case masked_fill_tabulate)
  moreover have "shape ?mw = [nD * nH * nW, w0 * w1 * w2]" by simp
  ultimately show ?thesis using mws by blast
qed

lemma inverse_perm_021: "inverse_perm [0, 2, 1] = [0, 2, 1]"
  by code_simp

lemma transpose_symmetric_tabulate:
  assumes sym: "\<And>w i j. f [w, i, j] = f [w, j, i]"
  shows "transpose_last_two (tabulate [n, m, m] f) = tabulate [n, m, m] f"
proof -
  have "transpose_last_two (tabulate [n, m, m] f)
          = tabulate [n, m, m] (\<lambda>idx. elem_at (tabulate [n, m, m] f) (permute_index [0, 2, 1] idx))"
    by (simp only: transpose_last_two_def permute_t_def inverse_perm_021 shape_tabulate)
       (simp add: permute_index_def)
  also have "\<dots> = tabulate [n, m, m] f"
  proof (rule tabulate_cong)
    fix idx assume v: "valid_index [n, m, m] idx"
    then have "length idx = 3" using valid_index_length by fastforce
    then obtain w i j where i: "idx = [w, i, j]" using length3_cases by blast
    have v': "valid_index [n, m, m] [w, j, i]" using v unfolding i by simp
    have "permute_index [0, 2, 1] [w, i, j] = [w, j, i]" by (simp add: permute_index_def)
    then show "elem_at (tabulate [n, m, m] f) (permute_index [0, 2, 1] idx) = f idx"
      unfolding i using elem_at_tabulate[OF v', of f] sym[of w j i] by simp
  qed
  finally show ?thesis .
qed

text \<open>
  Claim C5. For positive window sizes that divide the padded extents (and any shift
  sizes and device), \<open>compute_mask\<close> returns a tensor of shape
  \<open>(num_windows, window_volume, window_volume)\<close> with
  \<open>num_windows = (Dp/Wd)(Hp/Wh)(Wp/Ww)\<close> and \<open>window_volume = Wd * Wh * Ww\<close>. Entry
  \<open>[w, i, j]\<close> is \<open>0\<close> when positions \<open>i\<close> and \<open>j\<close> of window \<open>w\<close> carry the same region
  label and \<open>-100\<close> otherwise, so every entry is \<open>0\<close> or \<open>-100\<close>, and the mask equals its
  transpose in the last two axes.
\<close>

theorem compute_mask_symmetric:
  assumes pos: "0 < w0" "0 < w1" "0 < w2"
    and dv: "w0 dvd D" "w1 dvd H" "w2 dvd W"
  shows "\<exists>m labels. compute_mask D H W (w0, w1, w2) shift_size device = Inr m
           \<and> mask_windows D H W (w0, w1, w2) shift_size = Inr labels
           \<and> wf_tensor m
           \<and> shape m = [(D div w0) * (H div w1) * (W div w2), w0 * w1 * w2, w0 * w1 * w2]
           \<and> (\<forall>v \<in> set (data m). v = 0 \<or> v = - 100)
           \<and> (\<forall>w < (D div w0) * (H div w1) * (W div w2). \<forall>i < w0 * w1 * w2. \<forall>j < w0 * w1 * w2.
                  elem_at m [w, i, j]
                    = (if elem_at labels [w, i] = elem_at labels [w, j] then 0 else - 100))
           \<and> transpose_last_two m = m"
proof -
  obtain nD nH nW where D: "D = w0 * nD" and H: "H = w1 * nH" and W: "W = w2 * nW"
    using dv by (auto elim!: dvdE)
  from compute_mask_result[OF pos, of nD nH nW shift_size device]
  obtain mw :: "int tensor" where mws: "mask_windows D H W (w0, w1, w2) shift_size = Inr mw"
    and m: "compute_mask D H W (w0, w1, w2) shift_size device
          = Inr (tabulate [nD * nH * nW, w0 * w1 * w2, w0 * w1 * w2]
                   (\<lambda>idx. if elem_at mw [idx ! 0, idx ! 2] - elem_at mw [idx ! 0, idx ! 1] = 0
                           then 0 else - 100))"
    unfolding D H W by (elim exE conjE)
  let ?f = "\<lambda>idx. if elem_at mw [idx ! 0, idx ! 2] - elem_at mw [idx ! 0, idx ! 1] = (0::int)
                   then 0 else (- 100 :: int)"
  let ?m = "tabulate [nD * nH * nW, w0 * w1 * w2, w0 * w1 * w2] ?f"
  have 1: "wf_tensor ?m" by simp
  have 2: "shape ?m = [(D div w0) * (H div w1) * (W div w2), w0 * w1 * w2, w0 * w1 * w2]"
    using pos by (simp add: D H W)
  have 3: "\<forall>v \<in> set (data ?m). v = 0 \<or> v = - 100"
    by (rule data_tabulate_values) simp
  have 4: "transpose_last_two ?m = ?m"
    by (rule transpose_symmetric_tabulate) auto
  have 5: "\<forall>w < (D div w0) * (H div w1) * (W div w2). \<forall>i < w0 * w1 * w2. \<forall>j < w0 * w1 * w2.
             elem_at ?m [w, i, j] = (if elem_at mw [w, i] = elem_at mw [w, j] then 0 else - 100)"
  proof (intro allI impI)
    fix w i j
    assume "w < (D div w0) * (H div w1) * (W div w2)" "i < w0 * w1 * w2" "j < w0 * w1 * w2"
    then have "valid_index [nD * nH * nW, w0 * w1 * w2, w0 * w1 * w2] [w, i, j]"
      using pos by (simp add: D H W)
    then show "elem_at ?m [w, i, j] = (if elem_at mw [w, i] = elem_at mw [w, j] then 0 else - 100)"
      by (auto simp: elem_at_tabulate)
  qed
  from m mws 1 2 3 4 5 show ?thesis by blast
qed

theorem compute_mask_symmetric_witness:
  "compute_mask 4 1 2 (2, 1, 2) (1, 0, 1) ()
     = Inr \<lparr>shape = [2, 4, 4],
            data = [0, - 100, 0, - 100, - 100, 0, - 100, 0, 0, - 100, 0, - 100,
                    - 100, 0, - 100, 0, 0, - 100, - 100, - 100, - 100, 0, - 100,
                    - 100, - 100, - 100, 0, - 100, - 100, - 100, - 100, 0]\<rparr>
   \<and> mask_windows 4 1 2 (2, 1, 2) (1, 0, 1) = Inr \<lparr>shape = [2, 4], data = [7, 8, 7, 8, 16, 17, 25, 26]\<rparr>
   \<and> (\<exists>m. compute_mask 4 1 2 (2, 1, 2) (1, 0, 1) () = Inr m
           \<and> shape m = [(4 div 2) * (1 div 1) * (2 div 2), 2 * 1 * 2, 2 * 1 * 2]
           \<and> transpose_last_two m = m)"
proof -
  have c: "compute_mask 4 1 2 (2, 1, 2) (1, 0, 1) ()
     = Inr \<lparr>shape = [2, 4, 4],
            data = [0, - 100, 0, - 100, - 100, 0, - 100, 0, 0, - 100, 0, - 100,
                    - 100, 0, - 100, 0, 0, - 100, - 100, - 100, - 100, 0, - 100,
                    - 100, - 100, - 100, 0, - 100, - 100, - 100, - 100, 0]\<rparr>"
    by code_simp
  have l: "mask_windows 4 1 2 (2, 1, 2) (1, 0, 1)
             = Inr \<lparr>shape = [2, 4], data = [7, 8, 7, 8, 16, 17, 25, 26]\<rparr>"
    by code_simp
  have "\<exists>m labels. compute_mask 4 1 2 (2, 1, 2) (1, 0, 1) () = Inr m
           \<and> mask_windows 4 1 2 (2, 1, 2) (1, 0, 1) = Inr labels
           \<and> wf_tensor m
           \<and> shape m = [(4 div 2) * (1 div 1) * (2 div 2), 2 * 1 * 2, 2 * 1 * 2]
           \<and> (\<forall>v \<in> set (data m). v = 0 \<or> v = - 100)
           \<and> (\<forall>w < (4 div 2) * (1 div 1) * (2 div 2). \<forall>i < 2 * 1 * 2. \<forall>j < 2 * 1 * 2.
                  elem_at m [w, i, j]
                    = (if elem_at labels [w, i] = elem_at labels [w, j] then 0 else - 100))
           \<and> transpose_last_two m = m"
    by (rule compute_mask_symmetric) simp_all
  then have "\<exists>m. compute_mask 4 1 2 (2, 1, 2) (1, 0, 1) () = Inr m
           \<and> shape m = [(4 div 2) * (1 div 1) * (2 div 2), 2 * 1 * 2, 2 * 1 * 2]
           \<and> transpose_last_two m = m" by blast
  with c l show ?thesis by blast
qed

section \<open>The mask cache\<close>

lemma lru_run_append: "lru_run f c (ks @ [k]) = snd (lru_call f (lru_run f c ks) k)"
  by (induction ks arbitrary: c) simp_all

lemma filter_take_mem:
  "distinct R \<Longrightarrow> k \<in> set (take (Suc n) R)
     \<Longrightarrow> filter (\<lambda>x. x \<noteq> k) (take (Suc n) R) = take n (filter (\<lambda>x. x \<noteq> k) R)"
proof (induction R arbitrary: n)
  case Nil then show ?case by simp
next
  case (Cons a R)
  show ?case
  proof (cases "a = k")
    case True
    then have "k \<notin> set R" using Cons.prems by simp
    then have "filter (\<lambda>x. x \<noteq> k) R = R" "filter (\<lambda>x. x \<noteq> k) (take n R) = take n R"
      by (auto simp: filter_id_conv dest: in_set_takeD)
    then show ?thesis using True by simp
  next
    case False
    then have "k \<in> set (take n R)" using Cons.prems by simp
    then obtain m where n: "n = Suc m" by (cases n) auto
    then show ?thesis using Cons False \<open>k \<in> set (take n R)\<close> by simp
  qed
qed

lemma take_filter_notmem:
  "k \<notin> set (take n R) \<Longrightarrow> take n (filter (\<lambda>x. x \<noteq> k) R) = take n R"
proof (induction R arbitrary: n)
  case Nil then show ?case by simp
next
  case (Cons a R)
  then show ?case by (cases n) auto
qed

lemma recency_snoc:
  "rev (remdups (ks @ [k])) = k # filter (\<lambda>x. x \<noteq> k) (rev (remdups ks))"
proof -
  have "remdups (ks @ [k]) = filter (\<lambda>x. x \<noteq> k) (remdups ks) @ [k]"
    by (induction ks) auto
  then show ?thesis by (simp add: rev_filter)
qed

lemma map_of_mem: "distinct (map fst es) \<Longrightarrow> k \<in> fst ` set es \<Longrightarrow> \<exists>v. map_of es k = Some v \<and> (k, v) \<in> set es"
  by (metis (no_types, opaque_lifting) domD dom_map_of_conv_image_fst map_of_SomeD)

lemma lru_step:
  assumes inv: "lru_inv f ks c" and ok: "f k = Inr v"
  shows "fst (lru_call f c k) = Inr v"
    and "lru_inv f (ks @ [k]) (snd (lru_call f c k))"
    and "k \<in> set (take maxsize (rev (remdups ks)))
           \<Longrightarrow> builder_calls (snd (lru_call f c k)) = builder_calls c"
    and "k \<notin> set (take maxsize (rev (remdups ks)))
           \<Longrightarrow> builder_calls (snd (lru_call f c k)) = builder_calls c + 1"
proof -
  define R where "R = rev (remdups ks)"
  have snoc: "rev (remdups (ks @ [k])) = k # filter (\<lambda>x. x \<noteq> k) R"
    unfolding R_def by (rule recency_snoc)
  have keys: "map fst (entries c) = take maxsize R" and vals: "\<forall>(k, v) \<in> set (entries c). f k = Inr v"
    using inv by (simp_all add: lru_inv_def R_def)
  have dR: "distinct R" by (simp add: R_def)
  have dk: "distinct (map fst (entries c))" unfolding keys using dR by simp
  have len: "length (entries c) \<le> maxsize"
    using arg_cong[OF keys, of length] by simp
  have ms: "maxsize = Suc 127" by (simp add: maxsize_def)
  show "fst (lru_call f c k) = Inr v"
  proof (cases "map_of (entries c) k")
    case None then show ?thesis using ok by (simp add: lru_call_def)
  next
    case (Some v')
    then have "(k, v') \<in> set (entries c)" by (rule map_of_SomeD)
    then have "f k = Inr v'" using vals by auto
    then show ?thesis using Some ok by (simp add: lru_call_def)
  qed
  have hit_miss: "(k \<in> set (take maxsize R)) = (map_of (entries c) k \<noteq> None)"
  proof -
    have "(map_of (entries c) k \<noteq> None) = (k \<in> fst ` set (entries c))"
      by (metis map_of_eq_None_iff)
    also have "\<dots> = (k \<in> set (map fst (entries c)))" by simp
    finally show ?thesis unfolding keys by simp
  qed
  show "lru_inv f (ks @ [k]) (snd (lru_call f c k))"
  proof (cases "map_of (entries c) k")
    case None
    then have nm: "k \<notin> set (take maxsize R)" using hit_miss by simp
    have e: "entries (snd (lru_call f c k))
               = (k, v) # (if maxsize \<le> length (entries c) then butlast (entries c) else entries c)"
      using None ok by (simp add: lru_call_def)
    have "map fst (if maxsize \<le> length (entries c) then butlast (entries c) else entries c)
            = take 127 R"
    proof (cases "maxsize \<le> length (entries c)")
      case True
      then have l: "length (entries c) = maxsize" using len by simp
      have "map fst (butlast (entries c)) = butlast (take maxsize R)"
        using keys by (simp add: map_butlast)
      also have "\<dots> = take 127 R"
      proof -
        have "length (take maxsize R) = maxsize" using l arg_cong[OF keys, of length] by simp
        then have "maxsize \<le> length R" by (simp add: min_def split: if_splits)
        then have "butlast (take maxsize R) = take (maxsize - 1) R" by (rule butlast_take)
        then show ?thesis by (simp add: maxsize_def)
      qed
      finally show ?thesis using True by simp
    next
      case False
      then have "length (take maxsize R) < maxsize" using arg_cong[OF keys, of length] by simp
      then have "length R < maxsize" by (simp add: min_def split: if_splits)
      then have "take maxsize R = R" "take 127 R = R" by (simp_all add: ms)
      then show ?thesis using False keys by simp
    qed
    moreover have "take 127 (filter (\<lambda>x. x \<noteq> k) R) = take 127 R"
      by (rule take_filter_notmem) (use nm set_take_subset_set_take[of 127 maxsize R] in \<open>auto simp: maxsize_def\<close>)
    ultimately have k': "map fst (entries (snd (lru_call f c k))) = take maxsize (rev (remdups (ks @ [k])))"
      unfolding e snoc by (simp add: ms)
    have "set (if maxsize \<le> length (entries c) then butlast (entries c) else entries c) \<subseteq> set (entries c)"
      by (auto dest: in_set_butlastD)
    then have "\<forall>(k, v) \<in> set (entries (snd (lru_call f c k))). f k = Inr v"
      unfolding e using vals ok by auto
    with k' show ?thesis by (simp add: lru_inv_def)
  next
    case (Some v')
    then have m: "k \<in> set (take maxsize R)" using hit_miss by simp
    have e: "entries (snd (lru_call f c k)) = (k, v') # filter (\<lambda>e. fst e \<noteq> k) (entries c)"
      using Some by (simp add: lru_call_def)
    have "map fst (filter (\<lambda>e. fst e \<noteq> k) (entries c)) = filter (\<lambda>x. x \<noteq> k) (map fst (entries c))"
      by (simp add: filter_map comp_def)
    also have "\<dots> = take 127 (filter (\<lambda>x. x \<noteq> k) R)"
      unfolding keys ms using filter_take_mem[OF dR, of k 127] m by (simp add: ms)
    finally have k': "map fst (entries (snd (lru_call f c k))) = take maxsize (rev (remdups (ks @ [k])))"
      unfolding e snoc by (simp add: ms)
    have "(k, v') \<in> set (entries c)" using Some by (rule map_of_SomeD)
    then have "\<forall>(k, v) \<in> set (entries (snd (lru_call f c k))). f k = Inr v"
      unfolding e using vals by auto
    with k' show ?thesis by (simp add: lru_inv_def)
  qed
  show "k \<in> set (take maxsize (rev (remdups ks))) \<Longrightarrow> builder_calls (snd (lru_call f c k)) = builder_calls c"
    using hit_miss unfolding R_def by (auto simp: lru_call_def)
  show "k \<notin> set (take maxsize (rev (remdups ks))) \<Longrightarrow> builder_calls (snd (lru_call f c k)) = builder_calls c + 1"
    using hit_miss ok unfolding R_def by (auto simp: lru_call_def)
qed

lemma lru_inv_empty: "lru_inv f [] lru_empty"
  by (simp add: lru_inv_def lru_empty_def)

lemma lru_run_inv:
  "\<forall>k \<in> set ks. \<exists>v. f k = Inr v \<Longrightarrow> lru_inv f ks (lru_run f lru_empty ks)"
proof (induction ks rule: rev_induct)
  case Nil then show ?case by (simp add: lru_inv_empty)
next
  case (snoc k ks)
  then obtain v where "f k = Inr v" by auto
  moreover have "lru_inv f ks (lru_run f lru_empty ks)" using snoc by simp
  ultimately show ?case unfolding lru_run_append by (rule lru_step(2)[rotated])
qed

lemma lru_run_calls_small:
  "\<forall>k \<in> set ks. \<exists>v. f k = Inr v \<Longrightarrow> card (set ks) \<le> maxsize
     \<Longrightarrow> builder_calls (lru_run f lru_empty ks) = card (set ks)"
proof (induction ks rule: rev_induct)
  case Nil then show ?case by (simp add: lru_empty_def)
next
  case (snoc k ks)
  then obtain v where v: "f k = Inr v" by auto
  have inv: "lru_inv f ks (lru_run f lru_empty ks)" using snoc.prems by (intro lru_run_inv) simp
  have "card (set ks) \<le> card (set (ks @ [k]))" by (intro card_mono) auto
  then have small: "card (set ks) \<le> maxsize" using snoc.prems by simp
  then have IH: "builder_calls (lru_run f lru_empty ks) = card (set ks)"
    using snoc by simp
  have "length (rev (remdups ks)) \<le> maxsize" using small by (simp add: length_remdups_card_conv)
  then have t: "take maxsize (rev (remdups ks)) = rev (remdups ks)" by simp
  show ?case
  proof (cases "k \<in> set ks")
    case True
    then have "k \<in> set (take maxsize (rev (remdups ks)))" unfolding t by simp
    from lru_step(3)[OF inv v this] show ?thesis
      using True IH by (simp add: lru_run_append insert_absorb)
  next
    case False
    then have "k \<notin> set (take maxsize (rev (remdups ks)))" unfolding t by simp
    from lru_step(4)[OF inv v this] show ?thesis
      using False IH by (simp add: lru_run_append)
  qed
qed

lemma lru_run_calls_distinct:
  "\<forall>k \<in> set ks. \<exists>v. f k = Inr v \<Longrightarrow> distinct ks
     \<Longrightarrow> builder_calls (lru_run f lru_empty ks) = length ks"
proof (induction ks rule: rev_induct)
  case Nil then show ?case by (simp add: lru_empty_def)
next
  case (snoc k ks)
  then obtain v where v: "f k = Inr v" by auto
  have inv: "lru_inv f ks (lru_run f lru_empty ks)" using snoc.prems by (intro lru_run_inv) simp
  have "k \<notin> set ks" using snoc.prems by simp
  then have "k \<notin> set (take maxsize (rev (remdups ks)))" by (auto dest: in_set_takeD)
  from lru_step(4)[OF inv v this] show ?case using snoc by (simp add: lru_run_append)
qed

lemma lru_evicts:
  assumes ok: "\<forall>k \<in> set (k0 # ks). \<exists>v. f k = Inr v" and d: "distinct (k0 # ks)"
    and len: "length ks = maxsize"
  shows "builder_calls (snd (lru_call f (lru_run f lru_empty (k0 # ks)) k0)) = maxsize + 2"
proof -
  obtain v where v: "f k0 = Inr v" using ok by auto
  have inv: "lru_inv f (k0 # ks) (lru_run f lru_empty (k0 # ks))" by (rule lru_run_inv[OF ok])
  have calls: "builder_calls (lru_run f lru_empty (k0 # ks)) = maxsize + 1"
    using lru_run_calls_distinct[OF ok d] len by simp
  have "remdups (k0 # ks) = k0 # ks" using d by (simp add: distinct_remdups_id del: remdups.simps)
  then have "take maxsize (rev (remdups (k0 # ks))) = rev ks" using len by simp
  then have "k0 \<notin> set (take maxsize (rev (remdups (k0 # ks))))" using d by simp
  from lru_step(4)[OF inv v this] show ?thesis using calls by simp
qed

lemma compute_mask_builder_valid:
  assumes "valid_mask_key key"
  shows "\<exists>m. compute_mask_builder key = Inr m"
proof -
  obtain D H W w0 w1 w2 shift_size device where k: "key = (D, H, W, (w0, w1, w2), shift_size, device)"
    by (metis prod_cases3)
  have pos: "0 < w0" "0 < w1" "0 < w2" and dv: "w0 dvd D" "w1 dvd H" "w2 dvd W"
    using assms by (simp_all add: valid_mask_key_def k)
  obtain nD nH nW where D: "D = w0 * nD" and H: "H = w1 * nH" and W: "W = w2 * nW"
    using dv by (auto elim!: dvdE)
  from compute_mask_result[OF pos, of nD nH nW shift_size device]
  show ?thesis by (auto simp: compute_mask_builder_def k D H W)
qed

text \<open>
  Claim C4 (amended). The mask cache is an LRU cache of capacity 128. After any sequence
  \<open>ks\<close> of calls with valid keys, a call with a valid key \<open>k\<close> returns the mask the builder
  computes for \<open>k\<close>. If \<open>k\<close> is among the 128 most recently used distinct keys, the builder
  does not run; otherwise (a new key, or one that was evicted) it runs exactly once.
  Afterwards the cache holds exactly the 128 most recently used distinct keys, \<open>k\<close> first.
  As long as at most 128 distinct keys have been used, the builder has run once per
  distinct key.
\<close>

theorem compute_mask_cache_lru:
  assumes seen: "\<forall>key \<in> set ks. valid_mask_key key" and key: "valid_mask_key k"
  shows "fst (compute_mask_cached (lru_run compute_mask_builder lru_empty ks) k) = compute_mask_builder k
       \<and> (\<exists>m. compute_mask_builder k = Inr m)
       \<and> (k \<in> set (take maxsize (rev (remdups ks))) \<longrightarrow>
            builder_calls (snd (compute_mask_cached (lru_run compute_mask_builder lru_empty ks) k))
              = builder_calls (lru_run compute_mask_builder lru_empty ks))
       \<and> (k \<notin> set (take maxsize (rev (remdups ks))) \<longrightarrow>
            builder_calls (snd (compute_mask_cached (lru_run compute_mask_builder lru_empty ks) k))
              = builder_calls (lru_run compute_mask_builder lru_empty ks) + 1)
       \<and> map fst (entries (snd (compute_mask_cached (lru_run compute_mask_builder lru_empty ks) k)))
              = take maxsize (rev (remdups (ks @ [k])))
       \<and> (card (set (ks @ [k])) \<le> maxsize \<longrightarrow>
            builder_calls (snd (compute_mask_cached (lru_run compute_mask_builder lru_empty ks) k))
              = card (set (ks @ [k])))"
proof -
  let ?f = "compute_mask_builder :: 'a mask_key \<Rightarrow> py_error + int tensor"
  let ?c = "lru_run ?f lru_empty ks"
  have ok: "\<forall>key \<in> set ks. \<exists>v. ?f key = Inr v"
    using seen compute_mask_builder_valid by blast
  obtain m where m: "?f k = Inr m" using compute_mask_builder_valid[OF key] by blast
  have ok': "\<forall>key \<in> set (ks @ [k]). \<exists>v. ?f key = Inr v" using ok m by auto
  have inv: "lru_inv ?f ks ?c" by (rule lru_run_inv[OF ok])
  note st = lru_step[OF inv m]
  have 1: "fst (compute_mask_cached ?c k) = ?f k" using st(1) m by (simp add: compute_mask_cached_def)
  have 5: "map fst (entries (snd (compute_mask_cached ?c k))) = take maxsize (rev (remdups (ks @ [k])))"
    using st(2) by (simp add: lru_inv_def compute_mask_cached_def)
  have 6: "card (set (ks @ [k])) \<le> maxsize \<longrightarrow>
            builder_calls (snd (compute_mask_cached ?c k)) = card (set (ks @ [k]))"
    using lru_run_calls_small[OF ok'] by (simp add: lru_run_append compute_mask_cached_def)
  show ?thesis
    using 1 m st(3) st(4) 5 6 unfolding compute_mask_cached_def by blast
qed

theorem compute_mask_cache_lru_witness:
  "fst (compute_mask_cached
          (lru_run compute_mask_builder lru_empty
             [(2, 1, 1, (2, 1, 1), (1, 0, 0), ()), (4, 1, 2, (2, 1, 2), (1, 0, 1), ())])
          (2, 1, 1, (2, 1, 1), (1, 0, 0), ()))
     = Inr \<lparr>shape = [1, 2, 2], data = [0, - 100, - 100, 0]\<rparr>
   \<and> builder_calls (snd (compute_mask_cached
          (lru_run compute_mask_builder lru_empty
             [(2, 1, 1, (2, 1, 1), (1, 0, 0), ()), (4, 1, 2, (2, 1, 2), (1, 0, 1), ())])
          (2, 1, 1, (2, 1, 1), (1, 0, 0), ()))) = 2"
proof -
  let ?ka = "(2, 1, 1, (2, 1, 1), (1, 0, 0), ()) :: unit mask_key"
  let ?kb = "(4, 1, 2, (2, 1, 2), (1, 0, 1), ()) :: unit mask_key"
  have va: "valid_mask_key ?ka" and vb: "valid_mask_key ?kb" by (simp_all add: valid_mask_key_def)
  have seen: "\<forall>key \<in> set [?ka, ?kb]. valid_mask_key key" using va vb by simp
  have ne: "?ka \<noteq> ?kb" by simp
  have "set ([?ka, ?kb] @ [?ka]) = {?ka, ?kb}" by auto
  then have c: "card (set ([?ka, ?kb] @ [?ka])) = 2" using ne by (simp del: set_append set_simps)
  have b: "compute_mask_builder ?ka = Inr \<lparr>shape = [1, 2, 2], data = [0, - 100, - 100, 0]\<rparr>"
    by code_simp
  from compute_mask_cache_lru[OF seen va] c b show ?thesis by (simp add: maxsize_def)
qed

text \<open>
  With 129 distinct keys the first one is evicted: calling it again runs the builder a
  130th time, although the key was seen before.
\<close>

theorem compute_mask_cache_evicts:
  "builder_calls (lru_run compute_mask_builder lru_empty
       (map (\<lambda>i. (i, 1, 1, (1, 1, 1), (0, 0, 0), ())) [1..<130])) = 129
   \<and> builder_calls (snd (compute_mask_cached
       (lru_run compute_mask_builder lru_empty
          (map (\<lambda>i. (i, 1, 1, (1, 1, 1), (0, 0, 0), ())) [1..<130]))
       (1, 1, 1, (1, 1, 1), (0, 0, 0), ()))) = 130"
proof -
  let ?mk = "\<lambda>i::nat. (i, 1::nat, 1::nat, (1::nat, 1::nat, 1::nat), (0::nat, 0::nat, 0::nat), ())"
  let ?f = "compute_mask_builder :: unit mask_key \<Rightarrow> py_error + int tensor"
  have up: "[1..<130] = 1 # [2..<130]" by (simp add: upt_conv_Cons)
  have ks: "map ?mk [1..<130] = ?mk 1 # map ?mk [2..<130]" by (simp only: up list.map)
  have valid: "\<And>i. valid_mask_key (?mk i)" by (simp add: valid_mask_key_def)
  have ok: "\<forall>k \<in> set (?mk 1 # map ?mk [2..<130]). \<exists>v. ?f k = Inr v"
    using valid compute_mask_builder_valid by (metis (no_types, lifting) ks imageE list.set_map)
  have d: "distinct (?mk 1 # map ?mk [2..<130])"
    unfolding ks[symmetric] by (simp add: distinct_map inj_on_def)
  have len: "length (map ?mk [2..<130]) = maxsize" by (simp add: maxsize_def)
  have 1: "builder_calls (lru_run ?f lru_empty (map ?mk [1..<130])) = 129"
    unfolding ks using lru_run_calls_distinct[OF ok d] by simp
  have 2: "builder_calls (snd (lru_call ?f (lru_run ?f lru_empty (map ?mk [1..<130])) (?mk 1))) = 130"
    unfolding ks using lru_evicts[OF ok d len] by (simp add: maxsize_def)
  from 1 2 show ?thesis unfolding compute_mask_cached_def by simp
qed

section \<open>Cross-modal attention pairing\<close>

text \<open>
  Claim C6. When every attention module returns, \<open>forward_part1\<close> with \<open>cross = True\<close> gives
  each stream the sum of its own self-attention and a cross-attention whose query is the
  stream and whose keys and values are its partner: T1 with T1ce and T1ce with T1 through
  the one instance \<open>cross_attn_1\<close>, T2 with FLAIR and FLAIR with T2 through the one
  instance \<open>cross_attn_2\<close>. With \<open>cross = False\<close> each stream is its self-attention only.
\<close>

theorem forward_part1_attention_pairing:
  assumes "self_attn_t1 blk t1w attn_mask = Inr s1" "self_attn_t1ce blk t1cew attn_mask = Inr s2"
    "self_attn_t2 blk t2w attn_mask = Inr s3" "self_attn_flair blk flairw attn_mask = Inr s4"
    "cross_attn_1 blk t1w t1cew attn_mask = Inr c12" "cross_attn_1 blk t1cew t1w attn_mask = Inr c21"
    "cross_attn_2 blk t2w flairw attn_mask = Inr c34" "cross_attn_2 blk flairw t2w attn_mask = Inr c43"
  shows "forward_part1_attention blk t1w t1cew t2w flairw attn_mask True
           = Inr (s1 + c12, s2 + c21, s3 + c34, s4 + c43)
       \<and> forward_part1_attention blk t1w t1cew t2w flairw attn_mask False = Inr (s1, s2, s3, s4)"
  using assms by (simp add: forward_part1_attention_def add_results_def)

theorem forward_part1_attention_pairing_witness:
  "forward_part1_attention
      \<lparr>self_attn_t1 = (\<lambda>x m. Inr (2 * x)), self_attn_t1ce = (\<lambda>x m. Inr (3 * x)),
       self_attn_t2 = (\<lambda>x m. Inr (5 * x)), self_attn_flair = (\<lambda>x m. Inr (7 * x)),
       cross_attn_1 = (\<lambda>x y m. Inr (x + 10 * y)), cross_attn_2 = (\<lambda>x y m. Inr (x + 100 * y))\<rparr>
      (1::int) 2 3 4 (None :: unit option) True
     = Inr (2 * 1 + (1 + 10 * 2), 3 * 2 + (2 + 10 * 1), 5 * 3 + (3 + 100 * 4), 7 * 4 + (4 + 100 * 3))
   \<and> forward_part1_attention
      \<lparr>self_attn_t1 = (\<lambda>x m. Inr (2 * x)), self_attn_t1ce = (\<lambda>x m. Inr (3 * x)),
       self_attn_t2 = (\<lambda>x m. Inr (5 * x)), self_attn_flair = (\<lambda>x m. Inr (7 * x)),
       cross_attn_1 = (\<lambda>x y m. Inr (x + 10 * y)), cross_attn_2 = (\<lambda>x y m. Inr (x + 100 * y))\<rparr>
      (1::int) 2 3 4 (None :: unit option) False
     = Inr (2 * 1, 3 * 2, 5 * 3, 7 * 4)"
  by (rule forward_part1_attention_pairing) simp_all

section \<open>Head divisibility in windowed self-attention\<close>

lemma init_fields:
  assumes "SelfWindowAttention3D_init d ws nh qs = Inr m"
  shows "m = \<lparr>attn_dim = d, attn_window_size = ws, attn_num_heads = nh\<rparr>" and "0 < nh"
  using assms by (auto simp: SelfWindowAttention3D_init_def split: if_splits)

lemma qkv_reshape_eq:
  assumes nh: "0 < nh"
  shows "qkv_reshape \<lparr>attn_dim = d, attn_window_size = ws, attn_num_heads = nh\<rparr> Bw N d
           = (if Bw * N * (d * 3) = Bw * N * 3 * nh * (d div nh)
              then Inr [Bw, N, 3, nh, d div nh] else Inl RuntimeError)"
proof -
  have l: "linear_shape d (d * 3) [Bw, N, d] = Inr [Bw, N, d * 3]"
    by (simp add: linear_shape_def)
  have i: "\<And>n. infer_size [int Bw, int N, 3, int nh, int (d div nh)] n
             = (if n = prod_list [Bw, N, 3, nh, d div nh] then Inr [Bw, N, 3, nh, d div nh]
                else Inl RuntimeError)"
    using infer_size_plain[of "[Bw, N, 3, nh, d div nh]"] by simp
  have n0: "(nh = 0) = False" using nh by simp
  show ?thesis
    by (simp only: qkv_reshape_def self_window_attention.simps l sum.case i n0 if_False)
       (simp add: mult.assoc)
qed

lemma heads_divide:
  assumes "0 < Bw" "0 < N" "0 < (nh::nat)"
  shows "(Bw * N * (d * 3) = Bw * N * 3 * nh * (d div nh)) = (d mod nh = 0)"
proof -
  have "(Bw * N * (d * 3) = Bw * N * 3 * nh * (d div nh)) = ((Bw * N * 3) * d = (Bw * N * 3) * (nh * (d div nh)))"
    by (simp add: mult_ac)
  also have "\<dots> = (d = nh * (d div nh))" using assms by simp
  also have "\<dots> = (d mod nh = 0)"
    by (metis mult_div_mod_eq add.right_neutral add_left_cancel)
  finally show ?thesis .
qed

text \<open>
  Claim C9 (amended). For a constructed module with \<open>dim\<close> and \<open>num_heads\<close> and a non-empty
  input of shape \<open>(B_, N, dim)\<close> (\<open>B_ > 0\<close>, \<open>N > 0\<close>): if \<open>dim % num_heads \<noteq> 0\<close> the reshape of
  the fused projection into \<open>num_heads\<close> heads of size \<open>dim // num_heads\<close> raises, and so
  does \<open>forward\<close>, with or without a mask; if \<open>dim % num_heads = 0\<close> the reshape returns shape
  \<open>(B_, N, 3, num_heads, dim // num_heads)\<close>, and without a mask and with \<open>N\<close> at most the
  window volume \<open>forward\<close> returns shape \<open>(B_, N, dim)\<close>.
\<close>

theorem self_attention_head_divisibility:
  assumes init: "SelfWindowAttention3D_init d (Wd, Wh, Ww) nh qs = Inr m"
    and ne: "0 < Bw" "0 < N"
  shows "(d mod nh \<noteq> 0 \<longrightarrow>
            qkv_reshape m Bw N d = Inl RuntimeError
          \<and> SelfWindowAttention3D_forward m [Bw, N, d] mask_shape = Inl RuntimeError)
       \<and> (d mod nh = 0 \<longrightarrow>
            qkv_reshape m Bw N d = Inr [Bw, N, 3, nh, d div nh]
          \<and> (N \<le> Wd * Wh * Ww \<longrightarrow> SelfWindowAttention3D_forward m [Bw, N, d] None = Inr [Bw, N, d]))"
proof -
  note f = init_fields[OF init]
  have q: "qkv_reshape m Bw N d
             = (if d mod nh = 0 then Inr [Bw, N, 3, nh, d div nh] else Inl RuntimeError)"
    unfolding f(1) qkv_reshape_eq[OF f(2)] heads_divide[OF ne f(2)] ..
  have bad: "d mod nh \<noteq> 0 \<Longrightarrow> SelfWindowAttention3D_forward m [Bw, N, d] mask_shape = Inl RuntimeError"
    by (simp add: SelfWindowAttention3D_forward_def q)
  have good: "SelfWindowAttention3D_forward m [Bw, N, d] None = Inr [Bw, N, d]"
    if dv: "d mod nh = 0" and n: "N \<le> Wd * Wh * Ww"
  proof -
    have d: "nh * (d div nh) = d" using dv by (intro dvd_mult_div_cancel) (simp add: mod_eq_0_iff_dvd)
    have b1: "infer_size [int N, int N, - 1] (N * N * nh) = Inr [N, N, nh]"
      using infer_size_last[of "[N, N]" "N * N * nh"] ne by simp
    have b: "relative_position_bias_shape m N = Inr [nh, N, N]"
      unfolding relative_position_bias_shape_def f(1) using n
      by (simp add: min_absorb1 b1 permute_index_def Let_def)
    have y: "infer_size [int Bw, int N, int d] (Bw * (N * (nh * (d div nh)))) = Inr [Bw, N, d]"
      using infer_size_plain[of "[Bw, N, d]" "Bw * (N * (nh * (d div nh)))"] d by simp
    have flds: "attn_dim m = d" "attn_num_heads m = nh" by (simp_all add: f(1))
    show ?thesis
      unfolding SelfWindowAttention3D_forward_def
      by (simp add: q dv b Let_def permute_index_def matmul_shape_def broadcast_shapes_def
            add_mask_shape_def y linear_shape_def flds)
  qed
  show ?thesis using q bad good by simp
qed

theorem self_attention_head_divisibility_witness:
  "SelfWindowAttention3D_forward \<lparr>attn_dim = 3, attn_window_size = (1, 1, 1), attn_num_heads = 2\<rparr>
      [1, 1, 3] None = Inl RuntimeError
   \<and> SelfWindowAttention3D_forward \<lparr>attn_dim = 4, attn_window_size = (1, 2, 1), attn_num_heads = 2\<rparr>
      [6, 2, 4] None = Inr [6, 2, 4]"
proof -
  have i3: "SelfWindowAttention3D_init 3 (1, 1, 1) 2 False
              = Inr \<lparr>attn_dim = 3, attn_window_size = (1, 1, 1), attn_num_heads = 2\<rparr>"
    by code_simp
  have i4: "SelfWindowAttention3D_init 4 (1, 2, 1) 2 False
              = Inr \<lparr>attn_dim = 4, attn_window_size = (1, 2, 1), attn_num_heads = 2\<rparr>"
    by code_simp
  have p1: "0 < (1::nat)" and p2: "0 < (2::nat)" and p6: "0 < (6::nat)" by simp_all
  from self_attention_head_divisibility[OF i3 p1 p1, of None]
       self_attention_head_divisibility[OF i4 p6 p2, of None]
  show ?thesis by simp
qed

text \<open>
  On an empty batch the element counts agree (both are zero), so a module with
  \<open>dim = 3\<close> and \<open>num_heads = 2\<close> does not raise.
\<close>

theorem self_attention_empty_batch:
  "SelfWindowAttention3D_init 3 (1, 1, 1) 2 False
     = Inr \<lparr>attn_dim = 3, attn_window_size = (1, 1, 1), attn_num_heads = 2\<rparr>
   \<and> (3::nat) mod 2 = 1
   \<and> SelfWindowAttention3D_forward \<lparr>attn_dim = 3, attn_window_size = (1, 1, 1), attn_num_heads = 2\<rparr>
        [0, 1, 3] None = Inr [0, 1, 3]"
  by code_simp

section \<open>Deformable gather stays in bounds\<close>








section \<open>Regular mode of the deformable convolution\<close>















section \<open>The stage loop\<close>

lemma block_call_missing_argument:
  "SwinTransformerBlock3D_call blk [a1, a2, a3, a4] [(''cross'', v)] = Inl TypeError"
  by (simp add: SwinTransformerBlock3D_call_def bind_parameters_def)

lemma block_loop_raises:
  assumes "cat_dim1 t1 t1ce = Inr a" "cat_dim1 t1 t2 = Inr b" "cat_dim1 t1 flair = Inr c"
  shows "block_loop (blk # blks) depth n t1 t1ce t2 flair attn_mask extract_feature = Inl TypeError"
  using assms by (simp add: block_call_missing_argument)

lemma cat_dim1_same_shape:
  assumes "shape a = shape b" "length (shape a) = 5"
  shows "\<exists>r. cat_dim1 a b = Inr r"
proof -
  obtain a0 a1 as where "shape a = a0 # a1 # as"
    using assms(2) by (cases "shape a"; simp; cases "tl (shape a)"; auto)
  then show ?thesis using assms(1) by (simp add: cat_dim1_def)
qed

lemma compute_mask_cached_valid:
  assumes "valid_mask_key key"
  shows "\<exists>m c'. compute_mask_cached c key = (Inr m, c')"
proof (cases "map_of (entries c) key")
  case None
  obtain m where "compute_mask_builder key = Inr m"
    using compute_mask_builder_valid[OF assms] by blast
  then show ?thesis using None by (simp add: compute_mask_cached_def lru_call_def)
next
  case (Some v)
  then show ?thesis by (simp add: compute_mask_cached_def lru_call_def)
qed

lemma stage_window_shift_positive:
  assumes "layer_window_size layer = (w0, w1, w2)" "0 < w0" "0 < w1" "0 < w2"
    and "0 < D" "0 < H" "0 < W"
  shows "\<exists>u0 u1 u2 ss. stage_window_shift layer D H W = Inr ((u0, u1, u2), ss)
            \<and> 0 < u0 \<and> 0 < u1 \<and> 0 < u2"
proof -
  obtain s0 s1 s2 where s: "layer_shift_size layer = (s0, s1, s2)" by (metis prod_cases3)
  have up: "[0..<3] = [0, 1, 2]" by (simp add: upt_rec)
  show ?thesis
    using assms(2-)
    by (simp add: stage_window_shift_def assms(1) s get_window_size_def up)
qed

lemma padded_extent_multiple:
  assumes "0 < u"
  shows "\<exists>Dp. padded_extent D u = Inr Dp \<and> u dvd Dp"
  using assms by (simp add: padded_extent_def)

lemma stage_mask_key_valid:
  assumes "0 < u0" "0 < u1" "0 < u2"
  shows "\<exists>key. stage_mask_key (u0, u1, u2) ss D H W device = Inr key \<and> valid_mask_key key"
  using assms by (simp add: stage_mask_key_def padded_extent_def valid_mask_key_def)

lemma to_channel_last_shape:
  assumes "shape t = [B, C, D, H, W]"
  shows "\<exists>t'. to_channel_last t = Inr t' \<and> shape t' = [B, D, H, W, C]"
  using assms by (simp add: to_channel_last_def permute_t_def permute_index_def)

text \<open>
  Claim C2 (what the code does). For a stage with at least one block, four streams of one
  5D shape with positive spatial extents and a positive configured window,
  \<open>BasicLayer.forward\<close> raises TypeError in the first iteration of its loop: the block is
  called with four positional arguments and the keyword \<open>cross\<close>, so the parameter
  \<open>mask_matrix\<close> of \<open>forward\<close> has no value. No block receives streams, and no updated
  stream reaches the fused feature or the downsampling.
\<close>

theorem BasicLayer_forward_raises:
  assumes blk: "blocks layer \<noteq> []"
    and sh: "shape t1 = [B, C, D, H, W]" "shape t1ce = [B, C, D, H, W]"
            "shape t2 = [B, C, D, H, W]" "shape flair = [B, C, D, H, W]"
    and ext: "0 < D" "0 < H" "0 < W"
    and win: "layer_window_size layer = (w0, w1, w2)" "0 < w0" "0 < w1" "0 < w2"
  shows "fst (BasicLayer_forward layer device cache t1 t1ce t2 flair extract_feature) = Inl TypeError"
proof -
  obtain u0 u1 u2 ss where ws: "stage_window_shift layer D H W = Inr ((u0, u1, u2), ss)"
    and u: "0 < u0" "0 < u1" "0 < u2"
    using stage_window_shift_positive[OF win ext] by blast
  obtain a where a: "to_channel_last t1 = Inr a" "shape a = [B, D, H, W, C]"
    using to_channel_last_shape[OF sh(1)] by blast
  obtain b where b: "to_channel_last t1ce = Inr b" "shape b = [B, D, H, W, C]"
    using to_channel_last_shape[OF sh(2)] by blast
  obtain c where c: "to_channel_last t2 = Inr c" "shape c = [B, D, H, W, C]"
    using to_channel_last_shape[OF sh(3)] by blast
  obtain d where d: "to_channel_last flair = Inr d" "shape d = [B, D, H, W, C]"
    using to_channel_last_shape[OF sh(4)] by blast
  have streams: "map_results to_channel_last [t1, t1ce, t2, flair] = Inr [a, b, c, d]"
    by (simp add: a b c d)
  obtain key where key: "stage_mask_key (u0, u1, u2) ss D H W device = Inr key" "valid_mask_key key"
    using stage_mask_key_valid[OF u, of ss D H W device] by (elim exE conjE)
  obtain m cache' where m: "compute_mask_cached cache key = (Inr m, cache')"
    using compute_mask_cached_valid[OF key(2)] by blast
  obtain blk0 blks where bs: "blocks layer = blk0 # blks" using blk by (cases "blocks layer") auto
  obtain ab where ab: "cat_dim1 a b = Inr ab" using cat_dim1_same_shape[of a b] a b by auto
  obtain ac where ac: "cat_dim1 a c = Inr ac" using cat_dim1_same_shape[of a c] a c by auto
  obtain ad where ad: "cat_dim1 a d = Inr ad" using cat_dim1_same_shape[of a d] a d by auto
  have loop: "block_loop (blocks layer) 0 (length (blocks layer)) a b c d m extract_feature = Inl TypeError"
    unfolding bs by (rule block_loop_raises[OF ab ac ad])
  show ?thesis
    unfolding BasicLayer_forward_def
    by (simp add: sh(1) ws streams key(1) m loop del: map_results.simps)
qed

theorem BasicLayer_forward_raises_witness:
  "fst (BasicLayer_forward
          \<lparr>layer_window_size = (7, 7, 7), layer_shift_size = (3, 3, 3),
           blocks = [\<lparr>block_forward = (\<lambda>t1 t1ce t2 flair mask_matrix cross. Inr (t1, t1ce, t2, flair))\<rparr>,
                     \<lparr>block_forward = (\<lambda>t1 t1ce t2 flair mask_matrix cross. Inr (t1, t1ce, t2, flair))\<rparr>],
           downsample = None\<rparr>
          () lru_empty
          \<lparr>shape = [1, 1, 1, 1, 2], data = [1, 2 :: int]\<rparr> \<lparr>shape = [1, 1, 1, 1, 2], data = [3, 4]\<rparr>
          \<lparr>shape = [1, 1, 1, 1, 2], data = [5, 6]\<rparr> \<lparr>shape = [1, 1, 1, 1, 2], data = [7, 8]\<rparr>
          (FeatureList []))
     = Inl TypeError"
  by (rule BasicLayer_forward_raises[where B = 1 and C = 1 and D = 1 and H = 1 and W = 2
        and ?w0.0 = 7 and ?w1.0 = 7 and ?w2.0 = 7]) simp_all

end
